theory Spec2Isabelle
  imports Complex_Main "HOL-Library.Word"
begin

section \<open>The key/mode state register\<close>

text \<open>
  The program keeps its state in process-wide atomics (main.cpp, lines 57--67): one flag
  per physical movement key (four arrow keys and H, J, K, L), one per click key, one for
  the speed modifier, the two previously sampled button values, and the two controller
  flags. Every one of them starts at its initialiser.
\<close>

record globals =
  key_up :: bool
  key_down :: bool
  key_left :: bool
  key_right :: bool
  key_k :: bool
  key_h :: bool
  key_j :: bool
  key_l :: bool
  leftClickPressed :: bool
  rightClickPressed :: bool
  shiftPressed :: bool
  g_prevLeft :: bool
  g_prevRight :: bool
  enabled :: bool
  running :: bool

definition initial_globals :: globals where
  "initial_globals =
     \<lparr>key_up = False, key_down = False, key_left = False, key_right = False,
      key_k = False, key_h = False, key_j = False, key_l = False,
      leftClickPressed = False, rightClickPressed = False, shiftPressed = False,
      g_prevLeft = False, g_prevRight = False, enabled = False, running = True\<rparr>"

section \<open>Keyboard events\<close>

text \<open>
  A low-level keyboard notification carries the hook code \<open>nCode\<close> (a C int), the
  message identifier \<open>wParam\<close> and the virtual-key code \<open>vkCode\<close> (a DWORD) of the
  KBDLLHOOKSTRUCT behind \<open>lParam\<close>. The message identifiers and virtual-key codes are
  the values of the Windows headers; the letter keys are their character codes.
\<close>

type_synonym vkcode = "32 word"
type_synonym wparam = "64 word"

record key_event =
  nCode :: int
  wParam :: wparam
  vkCode :: vkcode

definition WM_KEYDOWN :: wparam where "WM_KEYDOWN = 0x0100"
definition WM_KEYUP :: wparam where "WM_KEYUP = 0x0101"
definition WM_SYSKEYDOWN :: wparam where "WM_SYSKEYDOWN = 0x0104"
definition WM_SYSKEYUP :: wparam where "WM_SYSKEYUP = 0x0105"

definition VK_CAPITAL :: vkcode where "VK_CAPITAL = 0x14"
definition VK_LEFT :: vkcode where "VK_LEFT = 0x25"
definition VK_UP :: vkcode where "VK_UP = 0x26"
definition VK_RIGHT :: vkcode where "VK_RIGHT = 0x27"
definition VK_DOWN :: vkcode where "VK_DOWN = 0x28"
definition VK_LSHIFT :: vkcode where "VK_LSHIFT = 0xA0"
definition VK_RSHIFT :: vkcode where "VK_RSHIFT = 0xA1"
definition VK_H :: vkcode where "VK_H = 0x48"
definition VK_J :: vkcode where "VK_J = 0x4A"
definition VK_K :: vkcode where "VK_K = 0x4B"
definition VK_L :: vkcode where "VK_L = 0x4C"
definition LEFT_CLICK_KEY :: vkcode where "LEFT_CLICK_KEY = 0x5A"
definition RIGHT_CLICK_KEY :: vkcode where "RIGHT_CLICK_KEY = 0x58"

definition isDown :: "wparam \<Rightarrow> bool" where
  "isDown w = (w = WM_KEYDOWN \<or> w = WM_SYSKEYDOWN)"

definition isUp :: "wparam \<Rightarrow> bool" where
  "isUp w = (w = WM_KEYUP \<or> w = WM_SYSKEYUP)"

text \<open>
  Each case of the switch runs \<open>if (isDown) flag.store(true); if (isUp) flag.store(false);\<close>
  in this order, so an up message wins and any other message leaves the flag as it was.
\<close>

definition store_edge :: "wparam \<Rightarrow> bool \<Rightarrow> bool" where
  "store_edge w old = (if isUp w then False else if isDown w then True else old)"

section \<open>The low-level keyboard hook\<close>

text \<open>
  The hook procedure either returns 1, which hides the event from the rest of the system,
  or returns the result of \<open>CallNextHookEx\<close>, which hands the event on.
\<close>

datatype hook_result = Return1 | CallNextHookEx

definition is_toggle :: "key_event \<Rightarrow> bool" where
  "is_toggle e = (isDown (wParam e) \<and> (vkCode e = VK_RSHIFT \<or> vkCode e = VK_CAPITAL))"

definition LowLevelKeyboardProc :: "key_event \<Rightarrow> globals \<Rightarrow> hook_result \<times> globals" where
  "LowLevelKeyboardProc e s =
     (if nCode e < 0 then (CallNextHookEx, s)
      else if isDown (wParam e) \<and> (vkCode e = VK_RSHIFT \<or> vkCode e = VK_CAPITAL)
        then (Return1, s\<lparr>enabled := \<not> enabled s\<rparr>)
      else if enabled s then
        (if vkCode e = VK_UP
           then (Return1, s\<lparr>key_up := store_edge (wParam e) (key_up s)\<rparr>)
         else if vkCode e = VK_DOWN
           then (Return1, s\<lparr>key_down := store_edge (wParam e) (key_down s)\<rparr>)
         else if vkCode e = VK_LEFT
           then (Return1, s\<lparr>key_left := store_edge (wParam e) (key_left s)\<rparr>)
         else if vkCode e = VK_RIGHT
           then (Return1, s\<lparr>key_right := store_edge (wParam e) (key_right s)\<rparr>)
         else if vkCode e = VK_K
           then (Return1, s\<lparr>key_k := store_edge (wParam e) (key_k s)\<rparr>)
         else if vkCode e = VK_J
           then (Return1, s\<lparr>key_j := store_edge (wParam e) (key_j s)\<rparr>)
         else if vkCode e = VK_H
           then (Return1, s\<lparr>key_h := store_edge (wParam e) (key_h s)\<rparr>)
         else if vkCode e = VK_L
           then (Return1, s\<lparr>key_l := store_edge (wParam e) (key_l s)\<rparr>)
         else if vkCode e = LEFT_CLICK_KEY
           then (Return1, s\<lparr>leftClickPressed := store_edge (wParam e) (leftClickPressed s)\<rparr>)
         else if vkCode e = RIGHT_CLICK_KEY
           then (Return1, s\<lparr>rightClickPressed := store_edge (wParam e) (rightClickPressed s)\<rparr>)
         else if vkCode e = VK_LSHIFT
           then (Return1, s\<lparr>shiftPressed := store_edge (wParam e) (shiftPressed s)\<rparr>)
         else (CallNextHookEx, s))
      else (CallNextHookEx,
            s\<lparr>key_up := False, key_down := False, key_left := False, key_right := False,
              key_k := False, key_j := False, key_h := False, key_l := False,
              shiftPressed := False\<rparr>))"

text \<open>The events of a sequence reach the hook one at a time, in order.\<close>

fun run_events :: "key_event list \<Rightarrow> globals \<Rightarrow> globals" where
  "run_events [] s = s"
| "run_events (e # es) s = run_events es (snd (LowLevelKeyboardProc e s))"

definition key_press :: "vkcode \<Rightarrow> key_event" where
  "key_press k = \<lparr>nCode = 0, wParam = WM_KEYDOWN, vkCode = k\<rparr>"

definition key_release :: "vkcode \<Rightarrow> key_event" where
  "key_release k = \<lparr>nCode = 0, wParam = WM_KEYUP, vkCode = k\<rparr>"

section \<open>Binary floating point\<close>

text \<open>
  The physics loop computes in \<open>float\<close> (binary32, 24 significant bits) and in
  \<open>double\<close> (binary64, 53 significant bits). A finite value of either format is a
  real number, and an operation of the format returns the exact result rounded to the
  nearest value of the format, a halfway case going to the even significand.
  \<open>round_to p\<close> is that rounding for \<open>p\<close> significant bits: it takes the binade of
  the magnitude, divides by the unit in the last place of that binade, rounds the
  quotient to an integer and scales back, keeping the sign. The exponent is left
  unbounded: the magnitudes of this program, from a nanosecond to a screen width, lie far
  inside the normal range of both formats, where the bounded formats round the same way.
  Each \<open>float\<close> operation is rounded to binary32 on its own.
\<close>

definition pow2 :: "int \<Rightarrow> real" where
  "pow2 k = (if 0 \<le> k then 2 ^ nat k else 1 / 2 ^ nat (- k))"

definition binade :: "real \<Rightarrow> int" where
  "binade x = \<lfloor>log 2 \<bar>x\<bar>\<rfloor>"

text \<open>Rounding to the nearest integer, a half going to the even neighbour.\<close>

definition rne :: "real \<Rightarrow> int" where
  "rne m =
     (let f = \<lfloor>m\<rfloor>
      in if m - real_of_int f < 1 / 2 then f
         else if 1 / 2 < m - real_of_int f then f + 1
         else if even f then f else f + 1)"

definition round_to :: "nat \<Rightarrow> real \<Rightarrow> real" where
  "round_to p x =
     (let ulp = pow2 (binade x - int p + 1)
      in sgn x * real_of_int (rne (\<bar>x\<bar> / ulp)) * ulp)"

definition fl32 :: "real \<Rightarrow> real" where
  "fl32 x = round_to 24 x"

definition fl64 :: "real \<Rightarrow> real" where
  "fl64 x = round_to 53 x"

section \<open>The physics loop\<close>

text \<open>
  The loop runs on its own thread and talks to the operating system through
  \<open>SetCursorPos\<close> and \<open>SendInput\<close>; the model records these calls, in order. The
  argument of the two button constructors is the \<open>left\<close> parameter of
  \<open>sendMouseDown\<close> and \<open>sendMouseUp\<close>.
\<close>

datatype os_output = SetCursorPos int int | SendMouseDown bool | SendMouseUp bool

fun for_button :: "bool \<Rightarrow> os_output \<Rightarrow> bool" where
  "for_button left (SetCursorPos x y) = False"
| "for_button left (SendMouseDown b) = (b = left)"
| "for_button left (SendMouseUp b) = (b = left)"

text \<open>
  What one iteration reads from outside the program: the time since the previous
  iteration in seconds, the answer of \<open>GetCursorPos\<close> (\<open>None\<close> when the call
  fails) and the two screen metrics.
\<close>

record tick_env =
  elapsed :: real
  cursor_query :: "(int \<times> int) option"
  screenW :: int
  screenH :: int

text \<open>
  The source computes the direction and the step in \<open>float\<close> and accumulates the
  position in \<open>double\<close>; every arithmetic operation below is followed by the rounding
  of the format it is computed in. Comparisons, assignments and the conversion of a
  32-bit integer to \<open>double\<close> are exact. The literals \<open>1e-9\<close>, \<open>0.05\<close> and the
  quotient \<open>1.0 / UPDATES_PER_SEC\<close> are \<open>double\<close> values, hence rounded.
\<close>

definition MAX_SPEED_PIX_PER_S :: real where
  "MAX_SPEED_PIX_PER_S = 700"

definition UPDATES_PER_SEC :: int where
  "UPDATES_PER_SEC = 120"

definition targetDt :: real where
  "targetDt = fl64 (1 / real_of_int UPDATES_PER_SEC)"

text \<open>Lines 213--216: a vanishing interval becomes the nominal one, a long one is cut.\<close>

definition clamp_dt :: "real \<Rightarrow> real" where
  "clamp_dt el =
     (let dt = (if el < fl64 (1 / 10 ^ 9) then targetDt else el)
      in if dt > fl64 (5 / 100) then fl64 (5 / 100) else dt)"

text \<open>
  Lines 190--198. C integer division truncates towards zero; the metrics are halved
  that way.
\<close>

definition c_div :: "int \<Rightarrow> int \<Rightarrow> int" where
  "c_div a b = sgn a * sgn b * (\<bar>a\<bar> div \<bar>b\<bar>)"

definition physicsLoop_init :: "(int \<times> int) option \<Rightarrow> int \<Rightarrow> int \<Rightarrow> real \<times> real" where
  "physicsLoop_init q w h =
     (let p = (case q of None \<Rightarrow> (c_div w 2, c_div h 2) | Some c \<Rightarrow> c)
      in (real_of_int (fst p), real_of_int (snd p)))"

text \<open>Lines 226--229: a direction is held when either of its two key flags is set.\<close>

definition up_held :: "globals \<Rightarrow> bool" where
  "up_held s = (key_up s \<or> key_k s)"

definition down_held :: "globals \<Rightarrow> bool" where
  "down_held s = (key_down s \<or> key_j s)"

definition left_held :: "globals \<Rightarrow> bool" where
  "left_held s = (key_left s \<or> key_h s)"

definition right_held :: "globals \<Rightarrow> bool" where
  "right_held s = (key_right s \<or> key_l s)"

definition gather_direction :: "globals \<Rightarrow> real \<times> real" where
  "gather_direction s =
     (let dx = 0; dy = 0;
          dy = (if up_held s then fl32 (dy - 1) else dy);
          dy = (if down_held s then fl32 (dy + 1) else dy);
          dx = (if left_held s then fl32 (dx - 1) else dx);
          dx = (if right_held s then fl32 (dx + 1) else dx)
      in (dx, dy))"

text \<open>
  \<open>std::hypot\<close> on two \<open>float\<close> arguments returns a \<open>float\<close>: the binary32 value
  nearest to the exact root. The loop calls it on components that are -1, 0 or 1 only,
  where the exact root is 0, 1 or the square root of 2.
\<close>

definition hypot :: "real \<Rightarrow> real \<Rightarrow> real" where
  "hypot x y = fl32 (sqrt (x\<^sup>2 + y\<^sup>2))"

text \<open>Lines 232--236: both divisions are \<open>float\<close> divisions.\<close>

definition normalize_direction :: "real \<times> real \<Rightarrow> real \<times> real" where
  "normalize_direction d =
     (let speed = hypot (fst d) (snd d)
      in if speed > 0 then (fl32 (fst d / speed), fl32 (snd d / speed)) else d)"

text \<open>
  Lines 260--261: \<open>MAX_SPEED_PIX_PER_S * speedMult * (float)dt\<close>, two \<open>float\<close>
  products from left to right, on the interval narrowed to \<open>float\<close>.
\<close>

definition speedMult :: "globals \<Rightarrow> real" where
  "speedMult s = (if shiftPressed s then 1 / 2 else 1)"

definition move_step :: "globals \<Rightarrow> real \<Rightarrow> real" where
  "move_step s dt = fl32 (fl32 (MAX_SPEED_PIX_PER_S * speedMult s) * fl32 dt)"

text \<open>
  Lines 262--263: the two \<open>float\<close> products \<open>dx * move\<close> and \<open>dy * move\<close>, and
  their addition to the \<open>double\<close> position.
\<close>

definition displacement :: "globals \<Rightarrow> real \<Rightarrow> real \<times> real" where
  "displacement s dt =
     (let d = normalize_direction (gather_direction s); move = move_step s dt
      in (fl32 (fst d * move), fl32 (snd d * move)))"

definition advance :: "globals \<Rightarrow> real \<Rightarrow> real \<times> real \<Rightarrow> real \<times> real" where
  "advance s dt pos =
     (let dis = displacement s dt
      in (fl64 (fst pos + fst dis), fl64 (snd pos + snd dis)))"

text \<open>Lines 266--283: four tests in sequence, the lower bounds first.\<close>

definition clamp_to_screen :: "int \<Rightarrow> int \<Rightarrow> real \<times> real \<Rightarrow> real \<times> real" where
  "clamp_to_screen w h p =
     (let px = fst p; py = snd p;
          px = (if px < 0 then 0 else px);
          py = (if py < 0 then 0 else py);
          px = (if px > real_of_int (w - 1) then real_of_int (w - 1) else px);
          py = (if py > real_of_int (h - 1) then real_of_int (h - 1) else py)
      in (px, py))"

text \<open>\<open>std::lround\<close> rounds to the nearest integer, halfway cases away from zero.\<close>

definition lround :: "real \<Rightarrow> int" where
  "lround x = (if 0 \<le> x then \<lfloor>x + 1 / 2\<rfloor> else \<lceil>x - 1 / 2\<rceil>)"

text \<open>Lines 289--307: the comparison of each button flag with its previous sample.\<close>

definition click_edges :: "globals \<Rightarrow> os_output list \<times> globals" where
  "click_edges s =
     (let prevLeft = g_prevLeft s; prevRight = g_prevRight s;
          curLeft = leftClickPressed s; curRight = rightClickPressed s
      in ((if curLeft \<and> \<not> prevLeft then [SendMouseDown True] else []) @
          (if \<not> curLeft \<and> prevLeft then [SendMouseUp True] else []) @
          (if curRight \<and> \<not> prevRight then [SendMouseDown False] else []) @
          (if \<not> curRight \<and> prevRight then [SendMouseUp False] else []),
          s\<lparr>g_prevLeft := curLeft, g_prevRight := curRight\<rparr>))"

text \<open>
  One iteration of the loop body (lines 209--323), on the register and the position
  \<open>(px, py)\<close>. The locals \<open>dx\<close> and \<open>dy\<close> are set to zero before they are read
  and carry nothing from one iteration to the next. The iteration reads each flag once;
  the model takes the register as it stands for the whole iteration.
\<close>

definition physicsLoop_step ::
  "tick_env \<Rightarrow> globals \<times> (real \<times> real) \<Rightarrow> os_output list \<times> globals \<times> (real \<times> real)" where
  "physicsLoop_step env sp =
     (let s = fst sp; pos = snd sp; dt = clamp_dt (elapsed env)
      in if enabled s then
           (let pos = advance s dt pos;
                pos = clamp_to_screen (screenW env) (screenH env) pos;
                ce = click_edges s
            in (SetCursorPos (lround (fst pos)) (lround (snd pos)) # fst ce, snd ce, pos))
         else
           (case cursor_query env of
              Some curp \<Rightarrow> ([], s, (real_of_int (fst curp), real_of_int (snd curp)))
            | None \<Rightarrow> ([], s, pos)))"

text \<open>
  A run of iterations in which only the edge translator is looked at: before each
  iteration the hook has left the two button flags at the sampled values. The result
  lists, for each iteration, the calls made and the register afterwards.
\<close>

fun run_click_ticks :: "(bool \<times> bool) list \<Rightarrow> globals \<Rightarrow> (os_output list \<times> globals) list" where
  "run_click_ticks [] s = []"
| "run_click_ticks (c # cs) s =
     (let r = click_edges (s\<lparr>leftClickPressed := fst c, rightClickPressed := snd c\<rparr>)
      in r # run_click_ticks cs (snd r))"

section \<open>Shutdown\<close>

text \<open>
  Lines 389--390 of \<open>WinMain\<close>, reached once the message loop has ended, the hook is
  removed and the physics thread is joined.
\<close>

definition WinMain_cleanup :: "globals \<Rightarrow> os_output list" where
  "WinMain_cleanup s =
     (if g_prevLeft s then [SendMouseUp True] else []) @
     (if g_prevRight s then [SendMouseUp False] else [])"

section \<open>The most recent edge of a key\<close>

text \<open>
  The down and up events of one physical key in a sequence, and the direction of the last
  of them (true for down), with the value to report when the key has had no event.
\<close>

definition edges_on :: "vkcode \<Rightarrow> key_event list \<Rightarrow> key_event list" where
  "edges_on k es = filter (\<lambda>e. vkCode e = k \<and> (isDown (wParam e) \<or> isUp (wParam e))) es"

definition most_recent_edge :: "vkcode \<Rightarrow> key_event list \<Rightarrow> bool \<Rightarrow> bool" where
  "most_recent_edge k es init =
     (if edges_on k es = [] then init else isDown (wParam (last (edges_on k es))))"

text \<open>The same over the two physical keys bound to one direction.\<close>

definition edges_on_aliases :: "vkcode \<Rightarrow> vkcode \<Rightarrow> key_event list \<Rightarrow> key_event list" where
  "edges_on_aliases k1 k2 es =
     filter (\<lambda>e. (vkCode e = k1 \<or> vkCode e = k2) \<and> (isDown (wParam e) \<or> isUp (wParam e))) es"

definition most_recent_alias_edge :: "vkcode \<Rightarrow> vkcode \<Rightarrow> key_event list \<Rightarrow> bool \<Rightarrow> bool" where
  "most_recent_alias_edge k1 k2 es init =
     (if edges_on_aliases k1 k2 es = [] then init
      else isDown (wParam (last (edges_on_aliases k1 k2 es))))"

section \<open>The edge translator, as specified\<close>

text \<open>
  What the translator is to emit for one button from its previous and its current sample:
  a button-down on a change from false to true, a button-up on a change from true to
  false, nothing otherwise. The previous sample of iteration \<open>i\<close> is the stored value
  for the first iteration and the sample of iteration \<open>i - 1\<close> after that.
\<close>

definition expected_edge :: "bool \<Rightarrow> bool \<Rightarrow> bool \<Rightarrow> os_output list" where
  "expected_edge left prev cur =
     (if \<not> prev \<and> cur then [SendMouseDown left]
      else if prev \<and> \<not> cur then [SendMouseUp left]
      else [])"

definition previous_sample :: "bool \<Rightarrow> bool list \<Rightarrow> nat \<Rightarrow> bool" where
  "previous_sample init xs i = (if i = 0 then init else xs ! (i - 1))"

section \<open>Length and unit vector in exact arithmetic\<close>

text \<open>
  The Euclidean length of a vector and the vector of length one in its direction, over
  the real numbers: what the binary computation of the loop is measured against.
\<close>

definition euclid :: "real \<times> real \<Rightarrow> real" where
  "euclid v = sqrt ((fst v)\<^sup>2 + (snd v)\<^sup>2)"

definition unit_vector :: "real \<times> real \<Rightarrow> real \<times> real" where
  "unit_vector v = (if v = (0, 0) then (0, 0) else (fst v / euclid v, snd v / euclid v))"

text \<open>The direction the held keys ask for, with components -1, 0 or 1.\<close>

definition held_direction :: "globals \<Rightarrow> real \<times> real" where
  "held_direction s =
     ((if right_held s then 1 else 0) - (if left_held s then 1 else 0),
      (if down_held s then 1 else 0) - (if up_held s then 1 else 0))"

section \<open>Facts about the hook\<close>

lemmas wm_defs = WM_KEYDOWN_def WM_KEYUP_def WM_SYSKEYDOWN_def WM_SYSKEYUP_def

lemmas vk_defs = VK_CAPITAL_def VK_LEFT_def VK_UP_def VK_RIGHT_def VK_DOWN_def
  VK_LSHIFT_def VK_RSHIFT_def VK_H_def VK_J_def VK_K_def VK_L_def
  LEFT_CLICK_KEY_def RIGHT_CLICK_KEY_def

lemma not_isDown_isUp: "\<not> (isDown w \<and> isUp w)"
  by (auto simp: isDown_def isUp_def wm_defs)

lemma isDown_WM_KEYDOWN: "isDown WM_KEYDOWN"
  by (simp add: isDown_def)

lemma isUp_WM_KEYUP: "isUp WM_KEYUP"
  by (simp add: isUp_def)

lemma not_isUp_WM_KEYDOWN: "\<not> isUp WM_KEYDOWN"
  by (simp add: isUp_def wm_defs)

lemma not_isDown_WM_KEYUP: "\<not> isDown WM_KEYUP"
  by (simp add: isDown_def wm_defs)

lemma hook_ignored:
  assumes "nCode e < 0"
  shows "LowLevelKeyboardProc e s = (CallNextHookEx, s)"
  using assms by (simp add: LowLevelKeyboardProc_def)

lemma hook_toggle:
  assumes "0 \<le> nCode e" and "is_toggle e"
  shows "LowLevelKeyboardProc e s = (Return1, s\<lparr>enabled := \<not> enabled s\<rparr>)"
  using assms by (simp add: LowLevelKeyboardProc_def is_toggle_def)

lemma hook_disabled:
  assumes "0 \<le> nCode e" and "\<not> is_toggle e" and "\<not> enabled s"
  shows "LowLevelKeyboardProc e s =
    (CallNextHookEx,
     s\<lparr>key_up := False, key_down := False, key_left := False, key_right := False,
       key_k := False, key_j := False, key_h := False, key_l := False,
       shiftPressed := False\<rparr>)"
  using assms by (simp add: LowLevelKeyboardProc_def is_toggle_def)

lemma hook_flips_iff:
  "(enabled (snd (LowLevelKeyboardProc e s)) \<noteq> enabled s) = (0 \<le> nCode e \<and> is_toggle e)"
  unfolding LowLevelKeyboardProc_def is_toggle_def by auto

text \<open>
  While the controller is enabled, an event on one of the eleven bound keys is swallowed,
  the speed-modifier key included, and an event on any other key is forwarded.
\<close>

lemma hook_enabled_matched:
  assumes "0 \<le> nCode e" and "\<not> is_toggle e" and "enabled s"
    and "vkCode e \<in> {VK_UP, VK_DOWN, VK_LEFT, VK_RIGHT, VK_K, VK_J, VK_H, VK_L,
                       LEFT_CLICK_KEY, RIGHT_CLICK_KEY, VK_LSHIFT}"
  shows "fst (LowLevelKeyboardProc e s) = Return1"
  using assms unfolding LowLevelKeyboardProc_def is_toggle_def by auto

lemma hook_enabled_unmatched:
  assumes "0 \<le> nCode e" and "\<not> is_toggle e" and "enabled s"
    and "vkCode e \<notin> {VK_UP, VK_DOWN, VK_LEFT, VK_RIGHT, VK_K, VK_J, VK_H, VK_L,
                       LEFT_CLICK_KEY, RIGHT_CLICK_KEY, VK_LSHIFT}"
  shows "LowLevelKeyboardProc e s = (CallNextHookEx, s)"
  using assms unfolding LowLevelKeyboardProc_def is_toggle_def by auto

lemma hook_enabled_speed_modifier:
  assumes "0 \<le> nCode e" and "enabled s" and "vkCode e = VK_LSHIFT"
  shows "LowLevelKeyboardProc e s
           = (Return1, s\<lparr>shiftPressed := store_edge (wParam e) (shiftPressed s)\<rparr>)"
  using assms unfolding LowLevelKeyboardProc_def by (simp add: vk_defs)

subsection \<open>The speed-modifier key\<close>

text \<open>
  C1. A key-down of the speed-modifier key (left shift) while the controller is enabled
  sets \<open>shiftPressed\<close>, and the hook returns 1: the event is hidden from the rest of
  the system, although the comment on that return says the key is let through.
\<close>

theorem C1_speed_modifier_swallowed:
  "LowLevelKeyboardProc (key_press VK_LSHIFT) (initial_globals\<lparr>enabled := True\<rparr>)
     = (Return1, initial_globals\<lparr>enabled := True, shiftPressed := True\<rparr>)"
  by (simp add: LowLevelKeyboardProc_def key_press_def initial_globals_def store_edge_def
      isDown_def isUp_def wm_defs vk_defs)

subsection \<open>The toggle keys\<close>

text \<open>
  C8, as the code has it. The hook has two toggle keys, right shift and caps lock. An
  event flips the controller mode and is swallowed exactly when it is a processed
  (\<open>nCode \<ge> 0\<close>) key-down of one of the two, whatever the current mode; no other
  event flips the mode.
\<close>

theorem C8_toggle_iff:
  "((enabled (snd (LowLevelKeyboardProc e s)) \<noteq> enabled s
       \<and> fst (LowLevelKeyboardProc e s) = Return1)
      = (0 \<le> nCode e \<and> isDown (wParam e) \<and> (vkCode e = VK_RSHIFT \<or> vkCode e = VK_CAPITAL)))
   \<and> ((enabled (snd (LowLevelKeyboardProc e s)) \<noteq> enabled s)
      = (0 \<le> nCode e \<and> isDown (wParam e) \<and> (vkCode e = VK_RSHIFT \<or> vkCode e = VK_CAPITAL)))"
proof (cases "0 \<le> nCode e \<and> is_toggle e")
  case True
  then have r: "LowLevelKeyboardProc e s = (Return1, s\<lparr>enabled := \<not> enabled s\<rparr>)"
    by (simp add: hook_toggle)
  have t: "0 \<le> nCode e \<and> isDown (wParam e) \<and> (vkCode e = VK_RSHIFT \<or> vkCode e = VK_CAPITAL)"
    using True by (simp add: is_toggle_def)
  show ?thesis unfolding r using t by simp
next
  case False
  then have same: "enabled (snd (LowLevelKeyboardProc e s)) = enabled s"
    using hook_flips_iff [of e s] by blast
  have nt: "\<not> (0 \<le> nCode e \<and> isDown (wParam e) \<and> (vkCode e = VK_RSHIFT \<or> vkCode e = VK_CAPITAL))"
    using False by (simp add: is_toggle_def)
  show ?thesis unfolding same using nt by simp
qed

text \<open>
  A key-down of right shift and a key-down of caps lock each turn the controller on from
  its initial state and are swallowed, and they are two different keys: no single key is
  the only one whose down-edge flips the mode.
\<close>

theorem C8_two_toggle_keys:
  "\<not> enabled initial_globals
   \<and> LowLevelKeyboardProc (key_press VK_RSHIFT) initial_globals
       = (Return1, initial_globals\<lparr>enabled := True\<rparr>)
   \<and> LowLevelKeyboardProc (key_press VK_CAPITAL) initial_globals
       = (Return1, initial_globals\<lparr>enabled := True\<rparr>)
   \<and> VK_RSHIFT \<noteq> VK_CAPITAL"
  by (simp add: LowLevelKeyboardProc_def key_press_def initial_globals_def isDown_def vk_defs)

subsection \<open>Disabling the controller\<close>

text \<open>
  C2, as the code has it. A processed toggle key-down changes the controller mode and
  nothing else in the register. Every other event processed while the controller is
  disabled is forwarded, leaves the controller disabled, and leaves all eight movement
  key flags and the speed-modifier flag false.
\<close>

theorem C2_disabled_reset:
  assumes "0 \<le> nCode e"
  shows "(is_toggle e \<longrightarrow>
            LowLevelKeyboardProc e s = (Return1, s\<lparr>enabled := \<not> enabled s\<rparr>))
       \<and> (\<not> is_toggle e \<and> \<not> enabled s \<longrightarrow>
            fst (LowLevelKeyboardProc e s) = CallNextHookEx
          \<and> \<not> enabled (snd (LowLevelKeyboardProc e s))
          \<and> \<not> key_up (snd (LowLevelKeyboardProc e s))
          \<and> \<not> key_down (snd (LowLevelKeyboardProc e s))
          \<and> \<not> key_left (snd (LowLevelKeyboardProc e s))
          \<and> \<not> key_right (snd (LowLevelKeyboardProc e s))
          \<and> \<not> key_k (snd (LowLevelKeyboardProc e s))
          \<and> \<not> key_j (snd (LowLevelKeyboardProc e s))
          \<and> \<not> key_h (snd (LowLevelKeyboardProc e s))
          \<and> \<not> key_l (snd (LowLevelKeyboardProc e s))
          \<and> \<not> shiftPressed (snd (LowLevelKeyboardProc e s)))"
proof (rule conjI; rule impI)
  assume "is_toggle e"
  with assms show "LowLevelKeyboardProc e s = (Return1, s\<lparr>enabled := \<not> enabled s\<rparr>)"
    by (rule hook_toggle)
next
  assume d: "\<not> is_toggle e \<and> \<not> enabled s"
  then have r: "LowLevelKeyboardProc e s =
    (CallNextHookEx,
     s\<lparr>key_up := False, key_down := False, key_left := False, key_right := False,
       key_k := False, key_j := False, key_h := False, key_l := False,
       shiftPressed := False\<rparr>)"
    using assms by (simp add: hook_disabled)
  show "fst (LowLevelKeyboardProc e s) = CallNextHookEx
          \<and> \<not> enabled (snd (LowLevelKeyboardProc e s))
          \<and> \<not> key_up (snd (LowLevelKeyboardProc e s))
          \<and> \<not> key_down (snd (LowLevelKeyboardProc e s))
          \<and> \<not> key_left (snd (LowLevelKeyboardProc e s))
          \<and> \<not> key_right (snd (LowLevelKeyboardProc e s))
          \<and> \<not> key_k (snd (LowLevelKeyboardProc e s))
          \<and> \<not> key_j (snd (LowLevelKeyboardProc e s))
          \<and> \<not> key_h (snd (LowLevelKeyboardProc e s))
          \<and> \<not> key_l (snd (LowLevelKeyboardProc e s))
          \<and> \<not> shiftPressed (snd (LowLevelKeyboardProc e s))"
    unfolding r using d by simp
qed

text \<open>
  The release of caps lock, arriving while the controller is disabled with the up-arrow
  and speed-modifier flags still set, is forwarded and clears both; a press of caps lock
  in the enabled state with the up-arrow flag set changes the mode only.
\<close>

theorem C2_disabled_reset_witness:
  "0 \<le> nCode (key_release VK_CAPITAL)
   \<and> \<not> is_toggle (key_release VK_CAPITAL)
   \<and> \<not> enabled (initial_globals\<lparr>key_up := True, shiftPressed := True\<rparr>)
   \<and> fst (LowLevelKeyboardProc (key_release VK_CAPITAL)
            (initial_globals\<lparr>key_up := True, shiftPressed := True\<rparr>)) = CallNextHookEx
   \<and> \<not> key_up (snd (LowLevelKeyboardProc (key_release VK_CAPITAL)
            (initial_globals\<lparr>key_up := True, shiftPressed := True\<rparr>)))
   \<and> \<not> shiftPressed (snd (LowLevelKeyboardProc (key_release VK_CAPITAL)
            (initial_globals\<lparr>key_up := True, shiftPressed := True\<rparr>)))
   \<and> 0 \<le> nCode (key_press VK_CAPITAL)
   \<and> is_toggle (key_press VK_CAPITAL)
   \<and> LowLevelKeyboardProc (key_press VK_CAPITAL)
        (initial_globals\<lparr>key_up := True, enabled := True\<rparr>)
       = (Return1, initial_globals\<lparr>key_up := True, enabled := False\<rparr>)"
proof -
  let ?off = "initial_globals\<lparr>key_up := True, shiftPressed := True\<rparr>"
  let ?on = "initial_globals\<lparr>key_up := True, enabled := True\<rparr>"
  have n: "0 \<le> nCode (key_release VK_CAPITAL)" "0 \<le> nCode (key_press VK_CAPITAL)"
    by (simp_all add: key_release_def key_press_def)
  have nt: "\<not> is_toggle (key_release VK_CAPITAL)"
    by (simp add: is_toggle_def key_release_def not_isDown_WM_KEYUP)
  have tg: "is_toggle (key_press VK_CAPITAL)"
    by (simp add: is_toggle_def key_press_def isDown_WM_KEYDOWN)
  have off: "\<not> enabled ?off"
    by (simp add: initial_globals_def)
  have "?on\<lparr>enabled := \<not> enabled ?on\<rparr> = initial_globals\<lparr>key_up := True, enabled := False\<rparr>"
    by simp
  with C2_disabled_reset [OF n(1), of ?off] C2_disabled_reset [OF n(2), of ?on] n nt tg off
  show ?thesis by simp
qed

text \<open>
  Caps lock, up arrow, Z, caps lock: the controller is disabled again while the up-arrow
  flag still reads true; and the release of Z that follows, processed while disabled,
  leaves the primary click flag true.
\<close>

theorem C2_flags_survive:
  "\<not> enabled (run_events [key_press VK_CAPITAL, key_press VK_UP, key_press LEFT_CLICK_KEY,
                          key_press VK_CAPITAL] initial_globals)
   \<and> key_up (run_events [key_press VK_CAPITAL, key_press VK_UP, key_press LEFT_CLICK_KEY,
                          key_press VK_CAPITAL] initial_globals)
   \<and> leftClickPressed (run_events [key_press VK_CAPITAL, key_press VK_UP,
                          key_press LEFT_CLICK_KEY, key_press VK_CAPITAL,
                          key_release LEFT_CLICK_KEY] initial_globals)"
  by (simp add: LowLevelKeyboardProc_def key_press_def key_release_def initial_globals_def
      isDown_def isUp_def store_edge_def wm_defs vk_defs)

lemma hook_enabled_step:
  assumes "0 \<le> nCode e" and "\<not> is_toggle e" and "enabled s"
  shows "enabled (snd (LowLevelKeyboardProc e s))"
    and "key_up (snd (LowLevelKeyboardProc e s))
           = (if vkCode e = VK_UP then store_edge (wParam e) (key_up s) else key_up s)"
    and "key_down (snd (LowLevelKeyboardProc e s))
           = (if vkCode e = VK_DOWN then store_edge (wParam e) (key_down s) else key_down s)"
    and "key_left (snd (LowLevelKeyboardProc e s))
           = (if vkCode e = VK_LEFT then store_edge (wParam e) (key_left s) else key_left s)"
    and "key_right (snd (LowLevelKeyboardProc e s))
           = (if vkCode e = VK_RIGHT then store_edge (wParam e) (key_right s) else key_right s)"
    and "key_k (snd (LowLevelKeyboardProc e s))
           = (if vkCode e = VK_K then store_edge (wParam e) (key_k s) else key_k s)"
    and "key_j (snd (LowLevelKeyboardProc e s))
           = (if vkCode e = VK_J then store_edge (wParam e) (key_j s) else key_j s)"
    and "key_h (snd (LowLevelKeyboardProc e s))
           = (if vkCode e = VK_H then store_edge (wParam e) (key_h s) else key_h s)"
    and "key_l (snd (LowLevelKeyboardProc e s))
           = (if vkCode e = VK_L then store_edge (wParam e) (key_l s) else key_l s)"
  using assms unfolding LowLevelKeyboardProc_def is_toggle_def
  by (simp_all add: vk_defs)

lemma edges_on_Cons:
  "edges_on k (e # es) =
     (if vkCode e = k \<and> (isDown (wParam e) \<or> isUp (wParam e)) then e # edges_on k es
      else edges_on k es)"
  by (simp add: edges_on_def)

lemma most_recent_edge_Nil: "most_recent_edge k [] init = init"
  by (simp add: most_recent_edge_def edges_on_def)

lemma most_recent_edge_Cons:
  "most_recent_edge k (e # es) init =
     most_recent_edge k es (if vkCode e = k then store_edge (wParam e) init else init)"
proof (cases "vkCode e = k \<and> (isDown (wParam e) \<or> isUp (wParam e))")
  case True
  then have c: "edges_on k (e # es) = e # edges_on k es"
    by (simp add: edges_on_Cons)
  from True have st: "store_edge (wParam e) init = isDown (wParam e)"
    using not_isDown_isUp [of "wParam e"] by (auto simp: store_edge_def)
  show ?thesis
    unfolding most_recent_edge_def c using True st by simp
next
  case False
  then have c: "edges_on k (e # es) = edges_on k es"
    by (simp add: edges_on_Cons)
  from False have "(if vkCode e = k then store_edge (wParam e) init else init) = init"
    by (auto simp: store_edge_def)
  then show ?thesis
    unfolding most_recent_edge_def c by simp
qed

lemma run_events_flag:
  assumes step: "\<And>e s. 0 \<le> nCode e \<Longrightarrow> \<not> is_toggle e \<Longrightarrow> enabled s \<Longrightarrow>
            f (snd (LowLevelKeyboardProc e s))
              = (if vkCode e = k then store_edge (wParam e) (f s) else f s)"
    and "enabled s" and "\<forall>e\<in>set es. 0 \<le> nCode e \<and> \<not> is_toggle e"
  shows "f (run_events es s) = most_recent_edge k es (f s)"
  using assms(2,3)
proof (induction es arbitrary: s)
  case Nil
  then show ?case by (simp add: most_recent_edge_Nil)
next
  case (Cons e es)
  let ?s' = "snd (LowLevelKeyboardProc e s)"
  from Cons.prems have e: "0 \<le> nCode e" "\<not> is_toggle e" by simp_all
  have en: "enabled ?s'" using e Cons.prems(1) by (rule hook_enabled_step(1))
  have "f (run_events es ?s') = most_recent_edge k es (f ?s')"
    using Cons.IH [OF en] Cons.prems(2) by simp
  also have "f ?s' = (if vkCode e = k then store_edge (wParam e) (f s) else f s)"
    using e Cons.prems(1) by (rule step)
  finally show ?case by (simp add: most_recent_edge_Cons)
qed

subsection \<open>Movement flags under a sequence of events\<close>

text \<open>
  C9, as the code has it. While the controller stays enabled (every event of the
  sequence is processed and none of them is a toggle key-down), each of the eight
  movement key flags holds the direction of the most recent down or up event of its own
  physical key, or its earlier value when that key had no event; and a direction, as
  the physics loop reads it, is held exactly when one of its two key flags is set.
\<close>

theorem C9_alias_flags:
  assumes "enabled s" and "\<forall>e\<in>set es. 0 \<le> nCode e \<and> \<not> is_toggle e"
  shows "key_up (run_events es s) = most_recent_edge VK_UP es (key_up s)
       \<and> key_k (run_events es s) = most_recent_edge VK_K es (key_k s)
       \<and> key_down (run_events es s) = most_recent_edge VK_DOWN es (key_down s)
       \<and> key_j (run_events es s) = most_recent_edge VK_J es (key_j s)
       \<and> key_left (run_events es s) = most_recent_edge VK_LEFT es (key_left s)
       \<and> key_h (run_events es s) = most_recent_edge VK_H es (key_h s)
       \<and> key_right (run_events es s) = most_recent_edge VK_RIGHT es (key_right s)
       \<and> key_l (run_events es s) = most_recent_edge VK_L es (key_l s)
       \<and> up_held (run_events es s)
           = (most_recent_edge VK_UP es (key_up s) \<or> most_recent_edge VK_K es (key_k s))
       \<and> down_held (run_events es s)
           = (most_recent_edge VK_DOWN es (key_down s) \<or> most_recent_edge VK_J es (key_j s))
       \<and> left_held (run_events es s)
           = (most_recent_edge VK_LEFT es (key_left s) \<or> most_recent_edge VK_H es (key_h s))
       \<and> right_held (run_events es s)
           = (most_recent_edge VK_RIGHT es (key_right s) \<or> most_recent_edge VK_L es (key_l s))"
proof -
  note flag = run_events_flag [OF _ assms]
  have u: "key_up (run_events es s) = most_recent_edge VK_UP es (key_up s)"
    by (rule flag) (rule hook_enabled_step(2))
  have d: "key_down (run_events es s) = most_recent_edge VK_DOWN es (key_down s)"
    by (rule flag) (rule hook_enabled_step(3))
  have l: "key_left (run_events es s) = most_recent_edge VK_LEFT es (key_left s)"
    by (rule flag) (rule hook_enabled_step(4))
  have r: "key_right (run_events es s) = most_recent_edge VK_RIGHT es (key_right s)"
    by (rule flag) (rule hook_enabled_step(5))
  have k: "key_k (run_events es s) = most_recent_edge VK_K es (key_k s)"
    by (rule flag) (rule hook_enabled_step(6))
  have j: "key_j (run_events es s) = most_recent_edge VK_J es (key_j s)"
    by (rule flag) (rule hook_enabled_step(7))
  have h: "key_h (run_events es s) = most_recent_edge VK_H es (key_h s)"
    by (rule flag) (rule hook_enabled_step(8))
  have ll: "key_l (run_events es s) = most_recent_edge VK_L es (key_l s)"
    by (rule flag) (rule hook_enabled_step(9))
  show ?thesis
    unfolding up_held_def down_held_def left_held_def right_held_def
    using u d l r k j h ll by simp
qed

text \<open>
  The arrow key and K both pressed, then K released: the flag of the arrow key is still
  set, the flag of K is cleared, and the direction up reads as held.
\<close>

theorem C9_alias_flags_witness:
  "enabled (initial_globals\<lparr>enabled := True\<rparr>)
   \<and> 0 \<le> nCode (key_press VK_UP) \<and> \<not> is_toggle (key_press VK_UP)
   \<and> 0 \<le> nCode (key_press VK_K) \<and> \<not> is_toggle (key_press VK_K)
   \<and> 0 \<le> nCode (key_release VK_K) \<and> \<not> is_toggle (key_release VK_K)
   \<and> key_up (run_events [key_press VK_UP, key_press VK_K, key_release VK_K]
               (initial_globals\<lparr>enabled := True\<rparr>))
   \<and> \<not> key_k (run_events [key_press VK_UP, key_press VK_K, key_release VK_K]
               (initial_globals\<lparr>enabled := True\<rparr>))
   \<and> up_held (run_events [key_press VK_UP, key_press VK_K, key_release VK_K]
               (initial_globals\<lparr>enabled := True\<rparr>))"
proof -
  let ?s = "initial_globals\<lparr>enabled := True\<rparr>"
  let ?es = "[key_press VK_UP, key_press VK_K, key_release VK_K]"
  have en: "enabled ?s" by simp
  have t: "\<not> is_toggle (key_press VK_UP)" "\<not> is_toggle (key_press VK_K)"
    "\<not> is_toggle (key_release VK_K)"
    by (simp_all add: is_toggle_def key_press_def key_release_def vk_defs)
  have n: "0 \<le> nCode (key_press VK_UP)" "0 \<le> nCode (key_press VK_K)"
    "0 \<le> nCode (key_release VK_K)"
    by (simp_all add: key_press_def key_release_def)
  have ok: "\<forall>e\<in>set ?es. 0 \<le> nCode e \<and> \<not> is_toggle e"
    using t n by simp
  have mu: "most_recent_edge VK_UP ?es (key_up ?s)"
    by (simp add: most_recent_edge_def edges_on_def key_press_def key_release_def
        isDown_def isUp_def wm_defs vk_defs)
  have mk: "\<not> most_recent_edge VK_K ?es (key_k ?s)"
    by (simp add: most_recent_edge_def edges_on_def key_press_def key_release_def
        isDown_def isUp_def wm_defs vk_defs)
  from C9_alias_flags [OF en ok] mu mk en t n show ?thesis by simp
qed

text \<open>
  After the same three events the physics loop reads the direction up as held, although
  the most recent event on either of the two keys of that direction is an up event.
\<close>

theorem C9_release_one_alias:
  "up_held (run_events [key_press VK_UP, key_press VK_K, key_release VK_K]
              (initial_globals\<lparr>enabled := True\<rparr>))
   \<and> \<not> most_recent_alias_edge VK_UP VK_K
          [key_press VK_UP, key_press VK_K, key_release VK_K] False"
  by (simp add: up_held_def LowLevelKeyboardProc_def most_recent_alias_edge_def
      edges_on_aliases_def key_press_def key_release_def initial_globals_def
      store_edge_def isDown_def isUp_def wm_defs vk_defs)


section \<open>Facts about the edge translator\<close>

lemma click_edges_left:
  "filter (for_button True) (fst (click_edges s))
     = expected_edge True (g_prevLeft s) (leftClickPressed s)"
  by (simp add: click_edges_def expected_edge_def Let_def)

lemma click_edges_right:
  "filter (for_button False) (fst (click_edges s))
     = expected_edge False (g_prevRight s) (rightClickPressed s)"
  by (simp add: click_edges_def expected_edge_def Let_def)

lemma click_edges_buttons_only:
  "e \<in> set (fst (click_edges s)) \<Longrightarrow> for_button True e \<or> for_button False e"
  by (auto simp add: click_edges_def Let_def split: if_splits)

lemma click_edges_state:
  "snd (click_edges s) = s\<lparr>g_prevLeft := leftClickPressed s, g_prevRight := rightClickPressed s\<rparr>"
  by (simp add: click_edges_def Let_def)

lemma length_run_click_ticks: "length (run_click_ticks cs s) = length cs"
  by (induction cs arbitrary: s) (simp_all add: Let_def)

lemma run_click_ticks_nth:
  assumes "i < length cs"
  shows "run_click_ticks cs s ! i =
     click_edges (s\<lparr>g_prevLeft := previous_sample (g_prevLeft s) (map fst cs) i,
                    g_prevRight := previous_sample (g_prevRight s) (map snd cs) i,
                    leftClickPressed := fst (cs ! i),
                    rightClickPressed := snd (cs ! i)\<rparr>)"
  using assms
proof (induction cs arbitrary: s i)
  case Nil
  then show ?case by simp
next
  case (Cons c cs)
  show ?case
  proof (cases i)
    case 0
    then show ?thesis by (simp add: previous_sample_def Let_def)
  next
    case (Suc j)
    let ?s' = "snd (click_edges (s\<lparr>leftClickPressed := fst c, rightClickPressed := snd c\<rparr>))"
    from Suc Cons.prems have j: "j < length cs" by simp
    have pl: "previous_sample (g_prevLeft ?s') (map fst cs) j
                = previous_sample (g_prevLeft s) (map fst (c # cs)) (Suc j)"
      by (cases j) (simp_all add: previous_sample_def click_edges_state)
    have pr: "previous_sample (g_prevRight ?s') (map snd cs) j
                = previous_sample (g_prevRight s) (map snd (c # cs)) (Suc j)"
      by (cases j) (simp_all add: previous_sample_def click_edges_state)
    have "run_click_ticks (c # cs) s ! i = run_click_ticks cs ?s' ! j"
      using Suc by (simp add: Let_def)
    also have "\<dots> = click_edges (?s'\<lparr>g_prevLeft := previous_sample (g_prevLeft ?s') (map fst cs) j,
                    g_prevRight := previous_sample (g_prevRight ?s') (map snd cs) j,
                    leftClickPressed := fst (cs ! j),
                    rightClickPressed := snd (cs ! j)\<rparr>)"
      by (rule Cons.IH [OF j])
    finally show ?thesis
      unfolding pl pr using Suc by (simp add: click_edges_state)
  qed
qed

text \<open>
  C3. In any run of iterations over sampled button values, and for each button on its
  own, iteration \<open>i\<close> emits exactly the one event that the change from the previous
  sample to the current one calls for (one button-down, one button-up, or nothing), it
  emits button events only, and it leaves the current samples stored as the previous
  values.
\<close>

theorem C3_edge_translator:
  assumes "i < length cs"
  shows "filter (for_button True) (fst (run_click_ticks cs s ! i))
           = expected_edge True (previous_sample (g_prevLeft s) (map fst cs) i) (fst (cs ! i))
       \<and> filter (for_button False) (fst (run_click_ticks cs s ! i))
           = expected_edge False (previous_sample (g_prevRight s) (map snd cs) i) (snd (cs ! i))
       \<and> (\<forall>e\<in>set (fst (run_click_ticks cs s ! i)). for_button True e \<or> for_button False e)
       \<and> g_prevLeft (snd (run_click_ticks cs s ! i)) = fst (cs ! i)
       \<and> g_prevRight (snd (run_click_ticks cs s ! i)) = snd (cs ! i)
       \<and> length (run_click_ticks cs s) = length cs"
proof -
  let ?t = "s\<lparr>g_prevLeft := previous_sample (g_prevLeft s) (map fst cs) i,
              g_prevRight := previous_sample (g_prevRight s) (map snd cs) i,
              leftClickPressed := fst (cs ! i),
              rightClickPressed := snd (cs ! i)\<rparr>"
  have nth: "run_click_ticks cs s ! i = click_edges ?t"
    using assms by (rule run_click_ticks_nth)
  have l: "filter (for_button True) (fst (click_edges ?t))
             = expected_edge True (previous_sample (g_prevLeft s) (map fst cs) i) (fst (cs ! i))"
    by (simp add: click_edges_left)
  have r: "filter (for_button False) (fst (click_edges ?t))
             = expected_edge False (previous_sample (g_prevRight s) (map snd cs) i) (snd (cs ! i))"
    by (simp add: click_edges_right)
  have b: "\<forall>e\<in>set (fst (click_edges ?t)). for_button True e \<or> for_button False e"
    using click_edges_buttons_only by blast
  have p: "g_prevLeft (snd (click_edges ?t)) = fst (cs ! i)"
    "g_prevRight (snd (click_edges ?t)) = snd (cs ! i)"
    by (simp_all add: click_edges_state)
  show ?thesis
    unfolding nth using l r b p length_run_click_ticks by blast
qed

text \<open>
  The primary flag true for three iterations and false at the fourth: one button-down at
  the first, one button-up at the fourth, nothing for the secondary button.
\<close>

theorem C3_edge_translator_witness:
  "(0::nat) < length [(True, False), (True, False), (True, False), (False, False)]
   \<and> (3::nat) < length [(True, False), (True, False), (True, False), (False, False)]
   \<and> filter (for_button True) (fst (run_click_ticks
         [(True, False), (True, False), (True, False), (False, False)] initial_globals ! 0))
       = [SendMouseDown True]
   \<and> filter (for_button True) (fst (run_click_ticks
         [(True, False), (True, False), (True, False), (False, False)] initial_globals ! 3))
       = [SendMouseUp True]
   \<and> filter (for_button False) (fst (run_click_ticks
         [(True, False), (True, False), (True, False), (False, False)] initial_globals ! 3))
       = []
   \<and> \<not> g_prevLeft (snd (run_click_ticks
         [(True, False), (True, False), (True, False), (False, False)] initial_globals ! 3))"
proof -
  let ?cs = "[(True, False), (True, False), (True, False), (False, False)]"
  have i0: "(0::nat) < length ?cs" and i3: "(3::nat) < length ?cs"
    by simp_all
  have p: "\<not> g_prevLeft initial_globals" "\<not> g_prevRight initial_globals"
    by (simp_all add: initial_globals_def)
  from C3_edge_translator [OF i0, of initial_globals]
       C3_edge_translator [OF i3, of initial_globals] p
  show ?thesis
    by (simp add: expected_edge_def previous_sample_def)
qed

section \<open>Facts about shutdown\<close>

text \<open>
  C7. For each button on its own, the cleanup emits exactly one button-up when the
  stored previous value is true and no event for that button when it is false; it emits
  nothing else.
\<close>

theorem C7_shutdown_releases:
  "filter (for_button True) (WinMain_cleanup s) = (if g_prevLeft s then [SendMouseUp True] else [])
   \<and> filter (for_button False) (WinMain_cleanup s)
       = (if g_prevRight s then [SendMouseUp False] else [])
   \<and> length (WinMain_cleanup s)
       = (if g_prevLeft s then 1 else 0) + (if g_prevRight s then 1 else 0)"
  by (simp add: WinMain_cleanup_def)

section \<open>Facts about the start of the physics loop\<close>

lemma c_div_nonneg: "0 \<le> a \<Longrightarrow> c_div a 2 = a div 2"
  by (cases "a = 0") (simp_all add: c_div_def)

text \<open>
  C10. When the cursor query fails the position starts at the halved screen metrics
  (C integer division, which for the non-negative metrics of a screen is the integer
  part of half the dimension); when it succeeds the position starts at the queried point.
\<close>

theorem C10_physicsLoop_init:
  "physicsLoop_init None w h = (real_of_int (c_div w 2), real_of_int (c_div h 2))
   \<and> (0 \<le> w \<and> 0 \<le> h \<longrightarrow>
        physicsLoop_init None w h = (real_of_int (w div 2), real_of_int (h div 2)))
   \<and> physicsLoop_init (Some (x, y)) w h = (real_of_int x, real_of_int y)"
  by (simp add: physicsLoop_init_def c_div_nonneg)

text \<open>A 1366 by 768 screen, and one with odd dimensions.\<close>

theorem C10_physicsLoop_init_witness:
  "(0::int) \<le> 1366 \<and> (0::int) \<le> 768
   \<and> physicsLoop_init None 1366 768 = (683, 384)
   \<and> physicsLoop_init None 1365 767 = (682, 383)
   \<and> physicsLoop_init (Some (500, 500)) 1366 768 = (500, 500)"
  using C10_physicsLoop_init [of 1366 768 500 500] C10_physicsLoop_init [of 1365 767 500 500]
  by (simp add: c_div_def)


section \<open>Facts about binary rounding\<close>

text \<open>
  The rounding changes a value by at most half a unit in the last place, hence by at most
  one part in \<open>2 ^ p\<close>; it keeps the sign, commutes with negation, and returns a value
  of the format unchanged.
\<close>

lemma pow2_powr: "pow2 k = 2 powr real_of_int k"
  by (simp add: pow2_def powr_int)

lemma pow2_pos: "0 < pow2 k"
  by (simp add: pow2_powr)

lemma pow2_add: "pow2 (a + b) = pow2 a * pow2 b"
  by (simp add: pow2_powr powr_add)

lemma pow2_nat: "pow2 (int n) = 2 ^ n"
  by (simp add: pow2_def)

lemma pow2_mono: "a \<le> b \<Longrightarrow> pow2 a \<le> pow2 b"
  by (simp add: pow2_powr)

lemma binade_bounds:
  assumes "x \<noteq> 0"
  shows "pow2 (binade x) \<le> \<bar>x\<bar>" and "\<bar>x\<bar> < pow2 (binade x + 1)"
proof -
  from assms have pos: "0 < \<bar>x\<bar>" by simp
  have "\<lfloor>log 2 \<bar>x\<bar>\<rfloor> = binade x" by (simp add: binade_def)
  then have "2 powr real_of_int (binade x) \<le> \<bar>x\<bar> \<and> \<bar>x\<bar> < 2 powr real_of_int (binade x + 1)"
    using floor_log_eq_powr_iff [OF pos, of 2 "binade x"] by simp
  then show "pow2 (binade x) \<le> \<bar>x\<bar>" and "\<bar>x\<bar> < pow2 (binade x + 1)"
    by (simp_all add: pow2_powr)
qed

lemma binade_eqI:
  assumes "pow2 e \<le> \<bar>x\<bar>" and "\<bar>x\<bar> < pow2 (e + 1)"
  shows "binade x = e"
proof -
  from assms(1) pow2_pos [of e] have pos: "0 < \<bar>x\<bar>" by linarith
  have "2 powr real_of_int e \<le> \<bar>x\<bar> \<and> \<bar>x\<bar> < 2 powr real_of_int (e + 1)"
    using assms by (simp add: pow2_powr)
  then have "\<lfloor>log 2 \<bar>x\<bar>\<rfloor> = e"
    using floor_log_eq_powr_iff [OF pos, of 2 e] by simp
  then show ?thesis by (simp add: binade_def)
qed

lemma rne_floor_or_next: "rne m = \<lfloor>m\<rfloor> \<or> rne m = \<lfloor>m\<rfloor> + 1"
  by (simp add: rne_def Let_def)

lemma rne_error: "\<bar>real_of_int (rne m) - m\<bar> \<le> 1 / 2"
proof -
  have "real_of_int \<lfloor>m\<rfloor> \<le> m" and "m < real_of_int \<lfloor>m\<rfloor> + 1"
    by linarith+
  then show ?thesis
    by (auto simp: rne_def Let_def)
qed

lemma rne_of_int: "rne (real_of_int k) = k"
  by (simp add: rne_def)

lemma rne_nearI:
  assumes "\<bar>m - real_of_int n\<bar> < 1 / 2"
  shows "rne m = n"
proof -
  have "\<bar>real_of_int (rne m) - real_of_int n\<bar> < 1"
    using rne_error [of m] assms by linarith
  then have "\<bar>rne m - n\<bar> < 1"
    by (metis of_int_abs of_int_diff of_int_less_1_iff)
  then show ?thesis by simp
qed

lemma rne_ge:
  assumes "real_of_int k \<le> m"
  shows "k \<le> rne m"
proof -
  from assms have "k \<le> \<lfloor>m\<rfloor>" by (simp add: le_floor_iff)
  then show ?thesis using rne_floor_or_next [of m] by linarith
qed

lemma rne_le:
  assumes "m \<le> real_of_int k"
  shows "rne m \<le> k"
proof (cases "m = real_of_int k")
  case True
  then show ?thesis by (simp add: rne_of_int)
next
  case False
  with assms have "m < real_of_int k" by simp
  then have "\<lfloor>m\<rfloor> < k" by (simp add: floor_less_iff)
  then show ?thesis using rne_floor_or_next [of m] by linarith
qed

lemma round_to_zero: "round_to p 0 = 0"
  by (simp add: round_to_def)

lemma round_to_minus: "round_to p (- x) = - round_to p x"
  by (simp add: round_to_def binade_def Let_def sgn_minus)

lemma round_to_eval:
  assumes "pow2 e \<le> \<bar>x\<bar>" and "\<bar>x\<bar> < pow2 (e + 1)"
  shows "round_to p x
           = sgn x * real_of_int (rne (\<bar>x\<bar> / pow2 (e - int p + 1))) * pow2 (e - int p + 1)"
  using binade_eqI [OF assms] by (simp add: round_to_def Let_def)

lemma round_to_abs:
  "\<bar>round_to p x\<bar> = real_of_int (rne (\<bar>x\<bar> / pow2 (binade x - int p + 1))) * pow2 (binade x - int p + 1)"
proof (cases "x = 0")
  case True
  then show ?thesis by (simp add: round_to_def rne_def)
next
  case False
  let ?u = "pow2 (binade x - int p + 1)"
  have u: "0 < ?u" by (rule pow2_pos)
  then have "0 \<le> \<bar>x\<bar> / ?u" by simp
  then have n: "0 \<le> rne (\<bar>x\<bar> / ?u)" using rne_ge [of 0 "\<bar>x\<bar> / ?u"] by simp
  have "\<bar>round_to p x\<bar> = \<bar>sgn x\<bar> * \<bar>real_of_int (rne (\<bar>x\<bar> / ?u))\<bar> * \<bar>?u\<bar>"
    by (simp add: round_to_def Let_def abs_mult)
  also have "\<bar>sgn x\<bar> = 1" using False by (simp add: abs_sgn_eq)
  also have "\<bar>real_of_int (rne (\<bar>x\<bar> / ?u))\<bar> = real_of_int (rne (\<bar>x\<bar> / ?u))"
    using n by simp
  also have "\<bar>?u\<bar> = ?u" using u by simp
  finally show ?thesis by simp
qed

lemma round_to_error_abs:
  "\<bar>round_to p x - x\<bar> \<le> pow2 (binade x - int p + 1) / 2"
proof -
  let ?u = "pow2 (binade x - int p + 1)"
  let ?n = "real_of_int (rne (\<bar>x\<bar> / ?u))"
  have u: "0 < ?u" by (rule pow2_pos)
  have x: "x = sgn x * \<bar>x\<bar>" by (simp add: sgn_mult_abs)
  have "round_to p x - x = sgn x * (?n * ?u - \<bar>x\<bar>)"
    using x by (simp add: round_to_def Let_def algebra_simps)
  then have "\<bar>round_to p x - x\<bar> = \<bar>sgn x\<bar> * \<bar>?n * ?u - \<bar>x\<bar>\<bar>"
    by (simp add: abs_mult)
  also have "\<dots> \<le> \<bar>?n * ?u - \<bar>x\<bar>\<bar>"
    by (cases "x = 0") (simp_all add: abs_sgn_eq)
  also have "?n * ?u - \<bar>x\<bar> = (?n - \<bar>x\<bar> / ?u) * ?u"
    using u by (simp add: field_simps)
  also have "\<bar>(?n - \<bar>x\<bar> / ?u) * ?u\<bar> = \<bar>?n - \<bar>x\<bar> / ?u\<bar> * ?u"
    using u by (simp add: abs_mult)
  also have "\<dots> \<le> 1 / 2 * ?u"
    using rne_error [of "\<bar>x\<bar> / ?u"] u by (intro mult_right_mono) simp_all
  finally show ?thesis by simp
qed

lemma round_to_error:
  "\<bar>round_to p x - x\<bar> \<le> \<bar>x\<bar> / 2 ^ p"
proof (cases "x = 0")
  case True
  then show ?thesis by (simp add: round_to_zero)
next
  case False
  have "pow2 (binade x - int p + 1) / 2 = pow2 (binade x) * pow2 (- int p)"
  proof -
    have "pow2 (binade x - int p + 1) = pow2 (binade x) * pow2 (- int p) * pow2 1"
      using pow2_add [of "binade x + (- int p)" 1] pow2_add [of "binade x" "- int p"] by simp
    then show ?thesis by (simp add: pow2_def)
  qed
  also have "pow2 (- int p) = 1 / 2 ^ p"
    by (simp add: pow2_def)
  finally have "pow2 (binade x - int p + 1) / 2 = pow2 (binade x) / 2 ^ p"
    by simp
  also have "\<dots> \<le> \<bar>x\<bar> / 2 ^ p"
    using binade_bounds(1) [OF False] by (simp add: divide_right_mono)
  finally show ?thesis
    using round_to_error_abs [of p x] by linarith
qed

lemma round_to_bounds:
  assumes "0 \<le> x"
  shows "x * (1 - 1 / 2 ^ p) \<le> round_to p x" and "round_to p x \<le> x * (1 + 1 / 2 ^ p)"
proof -
  have "\<bar>round_to p x - x\<bar> \<le> x / 2 ^ p"
    using round_to_error [of p x] assms by simp
  then show "x * (1 - 1 / 2 ^ p) \<le> round_to p x" and "round_to p x \<le> x * (1 + 1 / 2 ^ p)"
    by (simp_all add: algebra_simps abs_le_iff)
qed

lemma round_to_pos:
  assumes "0 < x" and "1 \<le> p"
  shows "0 < round_to p x"
proof -
  have "(2::real) ^ 1 \<le> 2 ^ p"
    using assms(2) by (intro power_increasing) simp_all
  then have "1 / (2::real) ^ p \<le> 1 / 2"
    by (simp add: field_simps)
  then have "0 < x * (1 - 1 / 2 ^ p)"
    using assms(1) by simp
  also have "\<dots> \<le> round_to p x"
    using assms(1) by (intro round_to_bounds(1)) simp
  finally show ?thesis .
qed

lemma round_to_evalI:
  assumes "pow2 e \<le> \<bar>x\<bar>" and "\<bar>x\<bar> < pow2 (e + 1)"
    and "rne (\<bar>x\<bar> / pow2 (e - int p + 1)) = n"
  shows "round_to p x = sgn x * real_of_int n * pow2 (e - int p + 1)"
  using round_to_eval [OF assms(1,2), of p] assms(3) by simp

lemma mantissa_bounds:
  assumes "x \<noteq> 0" and "1 \<le> p"
  shows "2 ^ (p - 1) \<le> rne (\<bar>x\<bar> / pow2 (binade x - int p + 1))"
    and "rne (\<bar>x\<bar> / pow2 (binade x - int p + 1)) \<le> 2 ^ p"
proof -
  let ?u = "pow2 (binade x - int p + 1)"
  have u: "0 < ?u" by (rule pow2_pos)
  have lo: "pow2 (binade x) = 2 ^ (p - 1) * ?u"
  proof -
    have "pow2 (binade x) = pow2 (int (p - 1) + (binade x - int p + 1))"
      using assms(2) by (simp add: of_nat_diff)
    then show ?thesis by (simp only: pow2_add pow2_nat)
  qed
  have hi: "pow2 (binade x + 1) = 2 ^ p * ?u"
  proof -
    have "pow2 (binade x + 1) = pow2 (int p + (binade x - int p + 1))"
      by simp
    then show ?thesis by (simp only: pow2_add pow2_nat)
  qed
  have "2 ^ (p - 1) * ?u \<le> \<bar>x\<bar>"
    using binade_bounds(1) [OF assms(1)] lo by simp
  then have "real_of_int (2 ^ (p - 1)) \<le> \<bar>x\<bar> / ?u"
    using u by (simp add: pos_le_divide_eq)
  then show "2 ^ (p - 1) \<le> rne (\<bar>x\<bar> / ?u)"
    by (rule rne_ge)
  have "\<bar>x\<bar> < 2 ^ p * ?u"
    using binade_bounds(2) [OF assms(1)] hi by simp
  then have "\<bar>x\<bar> / ?u \<le> real_of_int (2 ^ p)"
    using u by (simp add: pos_divide_le_eq)
  then show "rne (\<bar>x\<bar> / ?u) \<le> 2 ^ p"
    by (rule rne_le)
qed

lemma rne_examples: "rne (1 / 2) = 0" "rne (3 / 2) = 2" "rne (5 / 2) = 2" "rne (7 / 4) = 2"
  by (simp_all add: rne_def)

lemma fl32_1: "fl32 1 = 1"
  unfolding fl32_def
  by (subst round_to_evalI [where e = 0 and n = "2 ^ 23"]) (simp_all add: pow2_def rne_def)

lemma fl64_targetDt: "fl64 (1 / 120) = 4803839602528529 / 2 ^ 59"
  unfolding fl64_def
  by (subst round_to_evalI [where e = "- 7" and n = 4803839602528529])
     (simp_all add: pow2_def rne_def)

lemma round_to_sgn:
  assumes "1 \<le> p"
  shows "sgn (round_to p x) = sgn x"
proof -
  consider "x = 0" | "0 < x" | "x < 0" by linarith
  then show ?thesis
  proof cases
    case 1
    then show ?thesis by (simp add: round_to_zero)
  next
    case 2
    then show ?thesis using round_to_pos [OF _ assms, of x] by simp
  next
    case 3
    then have "0 < round_to p (- x)" using round_to_pos [OF _ assms, of "- x"] by simp
    with 3 show ?thesis by (simp add: round_to_minus)
  qed
qed

lemma round_to_idem:
  assumes "1 \<le> p"
  shows "round_to p (round_to p x) = round_to p x"
proof (cases "x = 0")
  case True
  then show ?thesis by (simp add: round_to_zero)
next
  case False
  let ?e = "binade x"
  let ?u = "pow2 (?e - int p + 1)"
  let ?n = "rne (\<bar>x\<bar> / ?u)"
  let ?y = "round_to p x"
  have u: "0 < ?u" by (rule pow2_pos)
  have lo: "pow2 ?e = 2 ^ (p - 1) * ?u"
  proof -
    have "pow2 ?e = pow2 (int (p - 1) + (?e - int p + 1))"
      using assms by (simp add: of_nat_diff)
    then show ?thesis by (simp only: pow2_add pow2_nat)
  qed
  have hi: "pow2 (?e + 1) = 2 ^ p * ?u"
  proof -
    have "pow2 (?e + 1) = pow2 (int p + (?e - int p + 1))" by simp
    then show ?thesis by (simp only: pow2_add pow2_nat)
  qed
  have n1: "2 ^ (p - 1) \<le> ?n" and n2: "?n \<le> 2 ^ p"
    using mantissa_bounds [OF False assms] by simp_all
  have absy: "\<bar>?y\<bar> = real_of_int ?n * ?u" by (rule round_to_abs)
  have sy: "sgn ?y = sgn x" using assms by (rule round_to_sgn)
  have y: "?y = sgn x * real_of_int ?n * ?u" by (simp add: round_to_def Let_def)
  show ?thesis
  proof (cases "?n = 2 ^ p")
    case True
    have ay: "\<bar>?y\<bar> = pow2 (?e + 1)" using absy True hi by simp
    have "pow2 (?e + 1) \<le> \<bar>?y\<bar>" using ay by simp
    moreover have "\<bar>?y\<bar> < pow2 (?e + 1 + 1)"
      using ay pow2_add [of "?e + 1" 1] pow2_pos [of "?e + 1"] by (simp add: pow2_def)
    ultimately have r: "round_to p ?y
        = sgn ?y * real_of_int (rne (\<bar>?y\<bar> / pow2 (?e + 1 - int p + 1))) * pow2 (?e + 1 - int p + 1)"
      by (rule round_to_eval)
    have u2: "pow2 (?e + 1 - int p + 1) = 2 * ?u"
      using pow2_add [of "?e - int p + 1" 1] by (simp add: pow2_def algebra_simps)
    have "\<bar>?y\<bar> / (2 * ?u) = real_of_int (2 ^ (p - 1))"
    proof -
      have "(2::real) ^ p = 2 * 2 ^ (p - 1)"
        using assms by (cases p) simp_all
      then show ?thesis using ay hi u by simp
    qed
    then have "rne (\<bar>?y\<bar> / (2 * ?u)) = 2 ^ (p - 1)"
      by (simp only: rne_of_int)
    then have "round_to p ?y = sgn x * real_of_int (2 ^ (p - 1)) * (2 * ?u)"
      unfolding r u2 sy by simp
    also have "\<dots> = sgn x * (2 ^ p) * ?u"
    proof -
      have "(2::real) ^ p = 2 * 2 ^ (p - 1)"
        using assms by (cases p) simp_all
      then show ?thesis by simp
    qed
    also have "\<dots> = ?y" using y True by simp
    finally show ?thesis .
  next
    case False
    with n2 have n3: "?n \<le> 2 ^ p - 1" by simp
    have "pow2 ?e \<le> \<bar>?y\<bar>"
    proof -
      have "real_of_int (2 ^ (p - 1)) * ?u \<le> real_of_int ?n * ?u"
        using n1 u by (intro mult_right_mono) simp_all
      then show ?thesis using absy lo by simp
    qed
    moreover have "\<bar>?y\<bar> < pow2 (?e + 1)"
    proof -
      have "?n < 2 ^ p" using n3 by simp
      then have "real_of_int ?n < real_of_int (2 ^ p)"
        by (simp only: of_int_less_iff)
      then have "real_of_int ?n < 2 ^ p" by simp
      then have "real_of_int ?n * ?u < 2 ^ p * ?u"
        using u by (intro mult_strict_right_mono)
      then show ?thesis using absy hi by simp
    qed
    ultimately have r: "round_to p ?y
        = sgn ?y * real_of_int (rne (\<bar>?y\<bar> / ?u)) * ?u"
      by (rule round_to_eval)
    have "\<bar>?y\<bar> / ?u = real_of_int ?n" using absy u by simp
    then have "rne (\<bar>?y\<bar> / ?u) = ?n" by (simp only: rne_of_int)
    then show ?thesis unfolding r sy using y by simp
  qed
qed

section \<open>Facts about the physics loop\<close>

subsection \<open>Values of the two formats\<close>

lemma fl32_0: "fl32 0 = 0"
  by (simp add: fl32_def round_to_zero)

lemma fl32_minus: "fl32 (- x) = - fl32 x"
  by (simp add: fl32_def round_to_minus)

lemma fl32_m1: "fl32 (- 1) = - 1"
  by (simp add: fl32_minus fl32_1)

lemma fl32_700: "fl32 700 = 700"
  unfolding fl32_def
  by (subst round_to_evalI [where e = 9 and n = "700 * 2 ^ 14"]) (simp_all add: pow2_def rne_def)

lemma fl32_350: "fl32 350 = 350"
  unfolding fl32_def
  by (subst round_to_evalI [where e = 8 and n = "350 * 2 ^ 15"]) (simp_all add: pow2_def rne_def)

lemma fl32_idem: "fl32 (fl32 x) = fl32 x"
  by (simp add: fl32_def round_to_idem)

lemma sqrt2_lower: "(11863283 - 1 / 2) / 2 ^ 23 < sqrt 2"
proof -
  have "((11863283 - 1 / 2) / 2 ^ 23 :: real)\<^sup>2 < 2"
    by (simp add: power2_eq_square)
  then show ?thesis
    by (rule real_less_rsqrt)
qed

lemma sqrt2_upper: "sqrt 2 < (11863283 + 1 / 2) / 2 ^ 23"
proof -
  have "(2::real) < ((11863283 + 1 / 2) / 2 ^ 23)\<^sup>2"
    by (simp add: power2_eq_square)
  then show ?thesis
    by (intro real_less_lsqrt) simp_all
qed

lemma fl32_sqrt2: "fl32 (sqrt 2) = 11863283 / 2 ^ 23"
proof -
  have lo: "pow2 0 \<le> \<bar>sqrt 2\<bar>"
    by (simp add: pow2_def)
  have hi: "\<bar>sqrt 2\<bar> < pow2 (0 + 1)"
    using sqrt2_upper by (simp add: pow2_def)
  have a: "11863283 - 1 / 2 < sqrt 2 * 8388608"
    using sqrt2_lower by (simp add: pos_divide_less_eq)
  have b: "sqrt 2 * 8388608 < 11863283 + 1 / 2"
    using sqrt2_upper by (simp add: pos_less_divide_eq)
  have "\<bar>sqrt 2 * 8388608 - 11863283\<bar> < 1 / 2"
    using a b by linarith
  then have "\<bar>sqrt 2 * 2 ^ 23 - real_of_int 11863283\<bar> < 1 / 2"
    by simp
  then have "rne (sqrt 2 * 2 ^ 23) = 11863283"
    by (rule rne_nearI)
  then have n: "rne (\<bar>sqrt 2\<bar> / pow2 (0 - int 24 + 1)) = 11863283"
    by (simp add: pow2_def)
  show ?thesis
    unfolding fl32_def using round_to_evalI [OF lo hi n] by (simp add: pow2_def)
qed

lemma fl32_inv_sqrt2: "fl32 (1 / (11863283 / 2 ^ 23)) = 11863283 / 2 ^ 24"
  unfolding fl32_def
  by (subst round_to_evalI [where e = "- 1" and n = 11863283]) (simp_all add: pow2_def rne_def)

lemma fl64_1e9: "fl64 (1 / 10 ^ 9) = 4835703278458517 / 2 ^ 82"
  unfolding fl64_def
  by (subst round_to_evalI [where e = "- 30" and n = 4835703278458517])
     (simp_all add: pow2_def rne_def)

lemma fl64_005: "fl64 (5 / 100) = 7205759403792794 / 2 ^ 57"
  unfolding fl64_def
  by (subst round_to_evalI [where e = "- 5" and n = 7205759403792794])
     (simp_all add: pow2_def rne_def)

lemma targetDt_eq: "targetDt = 4803839602528529 / 2 ^ 59"
  unfolding targetDt_def UPDATES_PER_SEC_def fl64_def
  by (subst round_to_evalI [where e = "- 7" and n = 4803839602528529])
     (simp_all add: pow2_def rne_def)

subsection \<open>Direction and normalisation\<close>

lemma gather_direction_eq: "gather_direction s = held_direction s"
  by (simp add: gather_direction_def held_direction_def Let_def fl32_0 fl32_1 fl32_m1)

lemma held_direction_cases [case_names zero axis diag]:
  obtains "held_direction s = (0, 0)"
  | x y where "held_direction s = (x, y)"
      and "(x = 0 \<and> (y = 1 \<or> y = - 1)) \<or> (y = 0 \<and> (x = 1 \<or> x = - 1))"
  | x y where "held_direction s = (x, y)" and "x = 1 \<or> x = - 1" and "y = 1 \<or> y = - 1"
  by (cases "right_held s"; cases "left_held s"; cases "down_held s"; cases "up_held s")
     (simp_all add: held_direction_def)

lemma hypot_zero: "hypot 0 0 = 0"
  by (simp add: hypot_def fl32_0)

lemma hypot_axis:
  assumes "(x = 0 \<and> (y = 1 \<or> y = - 1)) \<or> (y = 0 \<and> (x = 1 \<or> x = - 1))"
  shows "hypot x y = 1"
  using assms by (auto simp: hypot_def fl32_1)

lemma hypot_diag:
  assumes "x = 1 \<or> x = - 1" and "y = 1 \<or> y = - 1"
  shows "hypot x y = 11863283 / 2 ^ 23"
proof -
  from assms have "x\<^sup>2 + y\<^sup>2 = 2" by auto
  then show ?thesis by (simp add: hypot_def fl32_sqrt2)
qed

lemma fl32_div_diag:
  assumes "x = 1 \<or> x = - 1"
  shows "fl32 (x / (11863283 / 2 ^ 23)) = x * (11863283 / 2 ^ 24)"
proof -
  have m: "- 1 / (11863283 / 2 ^ 23) = - (1 / (11863283 / 2 ^ 23 :: real))"
    by simp
  from assms show ?thesis
  proof
    assume "x = 1"
    then show ?thesis using fl32_inv_sqrt2 by simp
  next
    assume "x = - 1"
    then show ?thesis
      unfolding m using fl32_minus [of "1 / (11863283 / 2 ^ 23)"] fl32_inv_sqrt2 by simp
  qed
qed

lemma normalize_direction_zero: "normalize_direction (0, 0) = (0, 0)"
  by (simp add: normalize_direction_def hypot_zero Let_def)

lemma normalize_direction_axis:
  assumes "(x = 0 \<and> (y = 1 \<or> y = - 1)) \<or> (y = 0 \<and> (x = 1 \<or> x = - 1))"
  shows "normalize_direction (x, y) = (x, y)"
  using assms hypot_axis [OF assms]
  by (auto simp: normalize_direction_def Let_def fl32_0 fl32_1 fl32_m1)

lemma normalize_direction_diag:
  assumes "x = 1 \<or> x = - 1" and "y = 1 \<or> y = - 1"
  shows "normalize_direction (x, y) = (x * (11863283 / 2 ^ 24), y * (11863283 / 2 ^ 24))"
proof -
  have h: "hypot x y = 11863283 / 2 ^ 23"
    using assms by (rule hypot_diag)
  have "0 < hypot x y" unfolding h by simp
  then have "normalize_direction (x, y) = (fl32 (x / hypot x y), fl32 (y / hypot x y))"
    by (simp add: normalize_direction_def Let_def)
  then show ?thesis
    unfolding h using fl32_div_diag [OF assms(1)] fl32_div_diag [OF assms(2)] by simp
qed

lemma normalize_held_direction:
  "normalize_direction (held_direction s) =
     (if fst (held_direction s) \<noteq> 0 \<and> snd (held_direction s) \<noteq> 0
      then (fst (held_direction s) * (11863283 / 2 ^ 24),
            snd (held_direction s) * (11863283 / 2 ^ 24))
      else held_direction s)"
proof (cases s rule: held_direction_cases)
  case zero
  then show ?thesis by (simp add: normalize_direction_zero)
next
  case (axis x y)
  then show ?thesis using normalize_direction_axis [OF axis(2)] by auto
next
  case (diag x y)
  then show ?thesis using normalize_direction_diag [OF diag(2,3)] by auto
qed

subsection \<open>The interval and the step\<close>

lemma targetDt_120: "targetDt = fl64 (1 / 120)"
  by (simp add: targetDt_def UPDATES_PER_SEC_def)

lemma clamp_dt_eq:
  "clamp_dt el =
     (if el < fl64 (1 / 10 ^ 9) then fl64 (1 / 120)
      else if fl64 (5 / 100) < el then fl64 (5 / 100)
      else el)"
proof -
  have "\<not> fl64 (5 / 100) < targetDt"
    unfolding targetDt_eq fl64_005 by simp
  then show ?thesis
    unfolding clamp_dt_def Let_def targetDt_120 [symmetric] by simp
qed

lemma clamp_dt_pos: "0 < clamp_dt el"
proof -
  have a: "0 < fl64 (1 / 10 ^ 9)" unfolding fl64_1e9 by simp
  have b: "0 < fl64 (5 / 100)" unfolding fl64_005 by simp
  have c: "0 < fl64 (1 / 120)" unfolding targetDt_120 [symmetric] targetDt_eq by simp
  show ?thesis
  proof (cases "el < fl64 (1 / 10 ^ 9)")
    case True
    then show ?thesis unfolding clamp_dt_eq using c by (simp only: if_True)
  next
    case False
    then have "0 < el" using a by linarith
    with False b show ?thesis unfolding clamp_dt_eq by (simp only: if_False split: if_split) blast
  qed
qed

lemma clamp_dt_targetDt: "clamp_dt targetDt = targetDt"
  unfolding clamp_dt_eq targetDt_120 [symmetric] fl64_1e9 fl64_005
  unfolding targetDt_eq by simp

lemma clamp_dt_120: "clamp_dt (1 / 120) = 1 / 120"
  unfolding clamp_dt_eq fl64_1e9 fl64_005 by simp

lemma move_step_eq:
  "move_step s dt = fl32 ((if shiftPressed s then 350 else 700) * fl32 dt)"
  by (simp add: move_step_def MAX_SPEED_PIX_PER_S_def speedMult_def fl32_700 fl32_350)

lemma fl32_move_step: "fl32 (move_step s dt) = move_step s dt"
  by (simp add: move_step_def fl32_idem)

lemma fl32_pos: "0 < x \<Longrightarrow> 0 < fl32 x"
  by (simp add: fl32_def round_to_pos)

lemma move_step_pos:
  assumes "0 < dt"
  shows "0 < move_step s dt"
  unfolding move_step_eq using fl32_pos [OF assms] by (intro fl32_pos) simp

lemma displacement_axis:
  assumes "held_direction s = (x, y)"
    and "(x = 0 \<and> (y = 1 \<or> y = - 1)) \<or> (y = 0 \<and> (x = 1 \<or> x = - 1))"
  shows "displacement s dt = (x * move_step s dt, y * move_step s dt)"
proof -
  have n: "normalize_direction (gather_direction s) = (x, y)"
    unfolding gather_direction_eq assms(1) using assms(2) by (rule normalize_direction_axis)
  have "fl32 (- move_step s dt) = - move_step s dt"
    by (simp add: fl32_minus fl32_move_step)
  then show ?thesis
    using assms(2) by (auto simp: displacement_def Let_def n fl32_0 fl32_move_step)
qed

lemma displacement_diag:
  assumes "held_direction s = (x, y)" and "x = 1 \<or> x = - 1" and "y = 1 \<or> y = - 1"
  shows "displacement s dt
           = (x * fl32 (11863283 / 2 ^ 24 * move_step s dt),
              y * fl32 (11863283 / 2 ^ 24 * move_step s dt))"
proof -
  have n: "normalize_direction (gather_direction s)
             = (x * (11863283 / 2 ^ 24), y * (11863283 / 2 ^ 24))"
    unfolding gather_direction_eq assms(1) using assms(2,3) by (rule normalize_direction_diag)
  have m: "fl32 (- (11863283 / 2 ^ 24 * move_step s dt))
             = - fl32 (11863283 / 2 ^ 24 * move_step s dt)"
    by (rule fl32_minus)
  show ?thesis
    using assms(2,3) m by (auto simp: displacement_def Let_def n)
qed

lemma displacement_zero:
  assumes "held_direction s = (0, 0)"
  shows "displacement s dt = (0, 0)"
  by (simp add: displacement_def Let_def gather_direction_eq assms normalize_direction_zero fl32_0)

subsection \<open>Distance from exact arithmetic\<close>

text \<open>
  Each rounding to binary32 changes a value by at most one part in \<open>2 ^ 24\<close>. The step
  goes through two roundings, a diagonal component through one more and through the
  rounded quotient \<open>1 / hypot\<close>; together they stay within one part in \<open>2 ^ 22\<close> of
  the product of speed and interval.
\<close>

lemma fl32_bounds:
  assumes "0 \<le> x"
  shows "x * (1 - 1 / 2 ^ 24) \<le> fl32 x" and "fl32 x \<le> x * (1 + 1 / 2 ^ 24)"
  using round_to_bounds [OF assms, of 24] by (simp_all add: fl32_def)

lemma speed_pos: "0 < MAX_SPEED_PIX_PER_S * speedMult s"
  by (simp add: MAX_SPEED_PIX_PER_S_def speedMult_def)

lemma move_step_speed:
  "move_step s dt = fl32 (MAX_SPEED_PIX_PER_S * speedMult s * fl32 dt)"
  by (simp add: move_step_def MAX_SPEED_PIX_PER_S_def speedMult_def fl32_700 fl32_350)

lemma move_step_bounds:
  assumes "0 < dt"
  shows "MAX_SPEED_PIX_PER_S * speedMult s * dt * (1 - 1 / 2 ^ 24)\<^sup>2 \<le> move_step s dt"
    and "move_step s dt \<le> MAX_SPEED_PIX_PER_S * speedMult s * dt * (1 + 1 / 2 ^ 24)\<^sup>2"
proof -
  let ?S = "MAX_SPEED_PIX_PER_S * speedMult s"
  let ?lo = "1 - 1 / 2 ^ 24 :: real"
  let ?hi = "1 + 1 / 2 ^ 24 :: real"
  have S: "0 < ?S" by (rule speed_pos)
  have lo: "0 < ?lo" and hi: "0 < ?hi" by simp_all
  have d0: "0 \<le> dt" using assms by simp
  have d1: "dt * ?lo \<le> fl32 dt" and d2: "fl32 dt \<le> dt * ?hi"
    using fl32_bounds [OF d0] by simp_all
  have f0: "0 \<le> ?S * fl32 dt"
    using S fl32_pos [OF assms] by simp
  have m1: "?S * fl32 dt * ?lo \<le> move_step s dt" and m2: "move_step s dt \<le> ?S * fl32 dt * ?hi"
    unfolding move_step_speed using fl32_bounds [OF f0] by simp_all
  have "?S * dt * ?lo\<^sup>2 = ?S * (dt * ?lo) * ?lo"
    by (simp add: power2_eq_square)
  also have "\<dots> \<le> ?S * fl32 dt * ?lo"
    using d1 S lo by (intro mult_right_mono mult_left_mono) simp_all
  also note m1
  finally show "?S * dt * ?lo\<^sup>2 \<le> move_step s dt" .
  note m2
  also have "?S * fl32 dt * ?hi \<le> ?S * (dt * ?hi) * ?hi"
    using d2 S hi by (intro mult_right_mono mult_left_mono) simp_all
  also have "\<dots> = ?S * dt * ?hi\<^sup>2"
    by (simp add: power2_eq_square)
  finally show "move_step s dt \<le> ?S * dt * ?hi\<^sup>2" .
qed

lemma close_from_factors:
  fixes K m :: real
  assumes "0 \<le> K" and "K * lo \<le> m" and "m \<le> K * hi"
    and "1 - 1 / 2 ^ 22 \<le> lo" and "hi \<le> 1 + 1 / 2 ^ 22"
  shows "\<bar>m - K\<bar> \<le> K / 2 ^ 22"
proof -
  define e where "e = K / 2 ^ 22"
  have "K * (1 - 1 / 2 ^ 22) \<le> K * lo"
    using assms(1,4) by (rule mult_left_mono [rotated])
  moreover have "K * hi \<le> K * (1 + 1 / 2 ^ 22)"
    using assms(1,5) by (rule mult_left_mono [rotated])
  moreover have "K * (1 - 1 / 2 ^ 22) = K - e" and "K * (1 + 1 / 2 ^ 22) = K + e"
    by (simp_all add: e_def algebra_simps)
  ultimately have "K - e \<le> m" and "m \<le> K + e"
    using assms(2,3) by linarith+
  then have "\<bar>m - K\<bar> \<le> e"
    by linarith
  then show ?thesis
    by (simp only: e_def)
qed

lemma move_step_close:
  assumes "0 < dt"
  shows "\<bar>move_step s dt - MAX_SPEED_PIX_PER_S * speedMult s * dt\<bar>
           \<le> MAX_SPEED_PIX_PER_S * speedMult s * dt / 2 ^ 22"
proof (rule close_from_factors)
  show "0 \<le> MAX_SPEED_PIX_PER_S * speedMult s * dt"
    using speed_pos [of s] assms by simp
  show "MAX_SPEED_PIX_PER_S * speedMult s * dt * (1 - 1 / 2 ^ 24)\<^sup>2 \<le> move_step s dt"
    using assms by (rule move_step_bounds(1))
  show "move_step s dt \<le> MAX_SPEED_PIX_PER_S * speedMult s * dt * (1 + 1 / 2 ^ 24)\<^sup>2"
    using assms by (rule move_step_bounds(2))
  show "(1 - 1 / 2 ^ 22 :: real) \<le> (1 - 1 / 2 ^ 24)\<^sup>2"
    by (simp add: power2_eq_square)
  show "(1 + 1 / 2 ^ 24 :: real)\<^sup>2 \<le> 1 + 1 / 2 ^ 22"
    by (simp add: power2_eq_square)
qed

lemma sqrt2_q_sq: "(sqrt 2 * (11863283 / 2 ^ 24))\<^sup>2 = 2 * (11863283 / 2 ^ 24)\<^sup>2"
proof -
  have "(sqrt 2 * (11863283 / 2 ^ 24))\<^sup>2 = (sqrt 2)\<^sup>2 * (11863283 / 2 ^ 24)\<^sup>2"
    by (rule power_mult_distrib)
  also have "(sqrt 2)\<^sup>2 = 2"
    by simp
  finally show ?thesis .
qed

lemma sqrt2_q_upper: "sqrt 2 * (11863283 / 2 ^ 24) \<le> 1"
proof -
  have "(sqrt 2 * (11863283 / 2 ^ 24))\<^sup>2 \<le> 1\<^sup>2"
    unfolding sqrt2_q_sq by (simp add: power2_eq_square)
  then show ?thesis
    by (rule power2_le_imp_le) simp
qed

lemma sqrt2_q_lower: "1 - 1 / 2 ^ 25 \<le> sqrt 2 * (11863283 / 2 ^ 24)"
proof -
  have "(1 - 1 / 2 ^ 25 :: real)\<^sup>2 \<le> (sqrt 2 * (11863283 / 2 ^ 24))\<^sup>2"
    unfolding sqrt2_q_sq by (simp add: power2_eq_square)
  then show ?thesis
    by (rule power2_le_imp_le) simp
qed

lemma diag_step_bounds:
  assumes "0 < dt"
  shows "MAX_SPEED_PIX_PER_S * speedMult s * dt * ((1 - 1 / 2 ^ 25) * (1 - 1 / 2 ^ 24) ^ 3)
           \<le> sqrt 2 * fl32 (11863283 / 2 ^ 24 * move_step s dt)"
    and "sqrt 2 * fl32 (11863283 / 2 ^ 24 * move_step s dt)
           \<le> MAX_SPEED_PIX_PER_S * speedMult s * dt * (1 + 1 / 2 ^ 24) ^ 3"
proof -
  let ?K = "MAX_SPEED_PIX_PER_S * speedMult s * dt"
  let ?q = "11863283 / 2 ^ 24 :: real"
  let ?m = "move_step s dt"
  let ?lo = "1 - 1 / 2 ^ 24 :: real"
  let ?hi = "1 + 1 / 2 ^ 24 :: real"
  have K: "0 < ?K" using speed_pos [of s] assms by simp
  have m: "0 < ?m" using assms by (rule move_step_pos)
  have lo: "0 < ?lo" and hi: "0 < ?hi" by simp_all
  have qm: "0 \<le> ?q * ?m" using m by simp
  have c1: "?q * ?m * ?lo \<le> fl32 (?q * ?m)" and c2: "fl32 (?q * ?m) \<le> ?q * ?m * ?hi"
    using fl32_bounds [OF qm] by simp_all
  have s2: "0 \<le> sqrt 2" by simp
  have "?K * ((1 - 1 / 2 ^ 25) * ?lo ^ 3) = (1 - 1 / 2 ^ 25) * (?K * ?lo\<^sup>2) * ?lo"
    by (simp add: power2_eq_square power3_eq_cube)
  also have "\<dots> \<le> (1 - 1 / 2 ^ 25) * ?m * ?lo"
    using move_step_bounds(1) [OF assms, of s] lo
    by (intro mult_right_mono mult_left_mono) simp_all
  also have "\<dots> \<le> sqrt 2 * ?q * ?m * ?lo"
    using sqrt2_q_lower m lo by (intro mult_right_mono) simp_all
  also have "\<dots> = sqrt 2 * (?q * ?m * ?lo)"
    by simp
  also have "\<dots> \<le> sqrt 2 * fl32 (?q * ?m)"
    using c1 s2 by (rule mult_left_mono)
  finally show "?K * ((1 - 1 / 2 ^ 25) * ?lo ^ 3) \<le> sqrt 2 * fl32 (?q * ?m)" .
  have "sqrt 2 * fl32 (?q * ?m) \<le> sqrt 2 * (?q * ?m * ?hi)"
    using c2 s2 by (rule mult_left_mono)
  also have "\<dots> = sqrt 2 * ?q * ?m * ?hi"
    by simp
  also have "\<dots> \<le> 1 * ?m * ?hi"
    using sqrt2_q_upper m hi by (intro mult_right_mono) simp_all
  also have "\<dots> \<le> 1 * (?K * ?hi\<^sup>2) * ?hi"
    using move_step_bounds(2) [OF assms, of s] hi
    by (intro mult_right_mono mult_left_mono) simp_all
  also have "\<dots> = ?K * ?hi ^ 3"
    by (simp add: power2_eq_square power3_eq_cube)
  finally show "sqrt 2 * fl32 (?q * ?m) \<le> ?K * ?hi ^ 3" .
qed

lemma diag_step_close:
  assumes "0 < dt"
  shows "\<bar>sqrt 2 * fl32 (11863283 / 2 ^ 24 * move_step s dt)
            - MAX_SPEED_PIX_PER_S * speedMult s * dt\<bar>
           \<le> MAX_SPEED_PIX_PER_S * speedMult s * dt / 2 ^ 22"
proof (rule close_from_factors)
  show "0 \<le> MAX_SPEED_PIX_PER_S * speedMult s * dt"
    using speed_pos [of s] assms by simp
  show "MAX_SPEED_PIX_PER_S * speedMult s * dt * ((1 - 1 / 2 ^ 25) * (1 - 1 / 2 ^ 24) ^ 3)
           \<le> sqrt 2 * fl32 (11863283 / 2 ^ 24 * move_step s dt)"
    using assms by (rule diag_step_bounds(1))
  show "sqrt 2 * fl32 (11863283 / 2 ^ 24 * move_step s dt)
           \<le> MAX_SPEED_PIX_PER_S * speedMult s * dt * (1 + 1 / 2 ^ 24) ^ 3"
    using assms by (rule diag_step_bounds(2))
  show "(1 - 1 / 2 ^ 22 :: real) \<le> (1 - 1 / 2 ^ 25) * (1 - 1 / 2 ^ 24) ^ 3"
    by (simp add: power3_eq_cube)
  show "(1 + 1 / 2 ^ 24 :: real) ^ 3 \<le> 1 + 1 / 2 ^ 22"
    by (simp add: power3_eq_cube)
qed

lemma euclid_scale:
  assumes "0 \<le> c"
  shows "euclid (x * c, y * c) = euclid (x, y) * c"
proof -
  have "(x * c)\<^sup>2 + (y * c)\<^sup>2 = (x\<^sup>2 + y\<^sup>2) * c\<^sup>2"
    by (simp add: power_mult_distrib distrib_right)
  then have "euclid (x * c, y * c) = sqrt ((x\<^sup>2 + y\<^sup>2) * c\<^sup>2)"
    by (simp add: euclid_def)
  also have "\<dots> = sqrt (x\<^sup>2 + y\<^sup>2) * sqrt (c\<^sup>2)"
    by (rule real_sqrt_mult)
  also have "sqrt (c\<^sup>2) = c"
    using assms by simp
  finally show ?thesis by (simp add: euclid_def)
qed

lemma euclid_axis:
  assumes "(x = 0 \<and> (y = 1 \<or> y = - 1)) \<or> (y = 0 \<and> (x = 1 \<or> x = - 1))"
  shows "euclid (x, y) = 1"
  using assms by (auto simp: euclid_def)

lemma euclid_diag:
  assumes "x = 1 \<or> x = - 1" and "y = 1 \<or> y = - 1"
  shows "euclid (x, y) = sqrt 2"
proof -
  from assms have "x\<^sup>2 + y\<^sup>2 = 2" by auto
  then show ?thesis by (simp add: euclid_def)
qed

lemma displacement_length_close:
  assumes "held_direction s \<noteq> (0, 0)" and "0 < dt"
  shows "\<bar>euclid (displacement s dt) - MAX_SPEED_PIX_PER_S * speedMult s * dt\<bar>
           \<le> MAX_SPEED_PIX_PER_S * speedMult s * dt / 2 ^ 22"
proof (cases s rule: held_direction_cases)
  case zero
  with assms(1) show ?thesis by simp
next
  case (axis x y)
  have "0 \<le> move_step s dt"
    using move_step_pos [OF assms(2), of s] by simp
  then have "euclid (displacement s dt) = move_step s dt"
    unfolding displacement_axis [OF axis] using euclid_axis [OF axis(2)]
    by (simp add: euclid_scale)
  then show ?thesis
    using move_step_close [OF assms(2), of s] by simp
next
  case (diag x y)
  let ?c = "fl32 (11863283 / 2 ^ 24 * move_step s dt)"
  have "0 < 11863283 / 2 ^ 24 * move_step s dt"
    using move_step_pos [OF assms(2), of s] by simp
  then have "0 \<le> ?c"
    using fl32_pos [of "11863283 / 2 ^ 24 * move_step s dt"] by simp
  then have "euclid (displacement s dt) = sqrt 2 * ?c"
    unfolding displacement_diag [OF diag] using euclid_diag [OF diag(2,3)]
    by (simp add: euclid_scale)
  then show ?thesis
    using diag_step_close [OF assms(2), of s] by simp
qed

lemma unit_vector_axis:
  assumes "(x = 0 \<and> (y = 1 \<or> y = - 1)) \<or> (y = 0 \<and> (x = 1 \<or> x = - 1))"
  shows "unit_vector (x, y) = (x, y)"
  using assms euclid_axis [OF assms] by (auto simp: unit_vector_def)

lemma unit_vector_diag:
  assumes "x = 1 \<or> x = - 1" and "y = 1 \<or> y = - 1"
  shows "unit_vector (x, y) = (x / sqrt 2, y / sqrt 2)"
  using assms euclid_diag [OF assms] by (auto simp: unit_vector_def)

lemma component_close_axis:
  fixes x m K e :: real
  assumes "x = 0 \<or> x = 1 \<or> x = - 1" and "\<bar>m - K\<bar> \<le> e"
  shows "\<bar>x * m - x * K\<bar> \<le> e"
proof -
  have "0 \<le> e" using assms(2) by linarith
  with assms show ?thesis by auto
qed

lemma component_close_diag:
  fixes x c K e :: real
  assumes "x = 1 \<or> x = - 1" and "\<bar>sqrt 2 * c - K\<bar> \<le> e"
  shows "\<bar>x * c - x / sqrt 2 * K\<bar> \<le> e"
proof -
  have e: "0 \<le> e" using assms(2) by linarith
  have "c - K / sqrt 2 = (sqrt 2 * c - K) / sqrt 2"
    by (simp add: field_simps)
  then have "\<bar>c - K / sqrt 2\<bar> = \<bar>sqrt 2 * c - K\<bar> / sqrt 2"
    by (simp add: abs_divide)
  also have "\<dots> \<le> \<bar>sqrt 2 * c - K\<bar> / 1"
    by (intro divide_left_mono) simp_all
  finally have "\<bar>c - K / sqrt 2\<bar> \<le> e"
    using assms(2) by simp
  moreover have "\<bar>x * c - x / sqrt 2 * K\<bar> = \<bar>c - K / sqrt 2\<bar>"
    using assms(1) by (auto simp: field_simps abs_minus_commute)
  ultimately show ?thesis by simp
qed

lemma displacement_close:
  assumes "0 < dt"
  shows "\<bar>fst (displacement s dt)
            - fst (unit_vector (held_direction s)) * (MAX_SPEED_PIX_PER_S * speedMult s * dt)\<bar>
           \<le> MAX_SPEED_PIX_PER_S * speedMult s * dt / 2 ^ 22"
    and "\<bar>snd (displacement s dt)
            - snd (unit_vector (held_direction s)) * (MAX_SPEED_PIX_PER_S * speedMult s * dt)\<bar>
           \<le> MAX_SPEED_PIX_PER_S * speedMult s * dt / 2 ^ 22"
proof -
  let ?K = "MAX_SPEED_PIX_PER_S * speedMult s * dt"
  have K: "0 \<le> ?K / 2 ^ 22"
    using speed_pos [of s] assms by simp
  have "\<bar>fst (displacement s dt) - fst (unit_vector (held_direction s)) * ?K\<bar> \<le> ?K / 2 ^ 22
      \<and> \<bar>snd (displacement s dt) - snd (unit_vector (held_direction s)) * ?K\<bar> \<le> ?K / 2 ^ 22"
  proof (cases s rule: held_direction_cases)
    case zero
    then show ?thesis
      using K by (simp add: displacement_zero unit_vector_def)
  next
    case (axis x y)
    from axis(2) have x: "x = 0 \<or> x = 1 \<or> x = - 1" and y: "y = 0 \<or> y = 1 \<or> y = - 1"
      by auto
    show ?thesis
      unfolding displacement_axis [OF axis] axis(1) unit_vector_axis [OF axis(2)]
      using component_close_axis [OF x move_step_close [OF assms, of s]]
            component_close_axis [OF y move_step_close [OF assms, of s]]
      by simp
  next
    case (diag x y)
    show ?thesis
      unfolding displacement_diag [OF diag] diag(1) unit_vector_diag [OF diag(2,3)]
      using component_close_diag [OF diag(2) diag_step_close [OF assms, of s]]
            component_close_diag [OF diag(3) diag_step_close [OF assms, of s]]
      by simp
  qed
  then show "\<bar>fst (displacement s dt) - fst (unit_vector (held_direction s)) * ?K\<bar> \<le> ?K / 2 ^ 22"
    and "\<bar>snd (displacement s dt) - snd (unit_vector (held_direction s)) * ?K\<bar> \<le> ?K / 2 ^ 22"
    by simp_all
qed

subsection \<open>Worked values\<close>

lemma fl32_targetDt: "fl32 (4803839602528529 / 2 ^ 59) = 8947849 / 2 ^ 30"
  unfolding fl32_def
  by (subst round_to_evalI [where e = "- 7" and n = 8947849]) (simp_all add: pow2_def rne_def)

lemma fl32_120: "fl32 (1 / 120) = 8947849 / 2 ^ 30"
  unfolding fl32_def
  by (subst round_to_evalI [where e = "- 7" and n = 8947849]) (simp_all add: pow2_def rne_def)

lemma fl32_step_700: "fl32 (700 * (8947849 / 2 ^ 30)) = 12233387 / 2 ^ 21"
  unfolding fl32_def
  by (subst round_to_evalI [where e = 2 and n = 12233387]) (simp_all add: pow2_def rne_def)

lemma fl32_step_350: "fl32 (350 * (8947849 / 2 ^ 30)) = 12233387 / 2 ^ 22"
  unfolding fl32_def
  by (subst round_to_evalI [where e = 1 and n = 12233387]) (simp_all add: pow2_def rne_def)

lemma move_step_targetDt:
  "move_step s targetDt = (if shiftPressed s then 12233387 / 2 ^ 22 else 12233387 / 2 ^ 21)"
  unfolding move_step_eq targetDt_eq fl32_targetDt
  using fl32_step_700 fl32_step_350 by simp

lemma move_step_120:
  "move_step s (1 / 120) = (if shiftPressed s then 12233387 / 2 ^ 22 else 12233387 / 2 ^ 21)"
  unfolding move_step_eq fl32_120
  using fl32_step_700 fl32_step_350 by simp

lemma fl64_045: "fl64 (45 / 1000) = 3242591731706757 / 2 ^ 56"
  unfolding fl64_def
  by (subst round_to_evalI [where e = "- 5" and n = 6485183463413514])
     (simp_all add: pow2_def rne_def)

lemma fl32_045: "fl32 (3242591731706757 / 2 ^ 56) = 12079596 / 2 ^ 28"
  unfolding fl32_def
  by (subst round_to_evalI [where e = "- 5" and n = 12079596]) (simp_all add: pow2_def rne_def)

lemma fl32_step_045: "fl32 (700 * (12079596 / 2 ^ 28)) = 16515073 / 2 ^ 19"
  unfolding fl32_def
  by (subst round_to_evalI [where e = 4 and n = 16515073]) (simp_all add: pow2_def rne_def)

lemma fl64_500: "fl64 500 = 500"
  unfolding fl64_def
  by (subst round_to_evalI [where e = 8 and n = 8796093022208000])
     (simp_all add: pow2_def rne_def)

lemma fl64_scenario: "fl64 (500 + 12233387 / 2 ^ 21) = 1060809387 / 2 ^ 21"
  unfolding fl64_def
  by (subst round_to_evalI [where e = 8 and n = 8898714110263296])
     (simp_all add: pow2_def rne_def)

lemma fl64_045_left: "fl64 (500 + - 1 * (16515073 / 2 ^ 19)) = 245628927 / 2 ^ 19"
  unfolding fl64_def
  by (subst round_to_evalI [where e = 8 and n = 8241939128254464])
     (simp_all add: pow2_def rne_def)

lemma clamp_dt_045: "clamp_dt (3242591731706757 / 2 ^ 56) = 3242591731706757 / 2 ^ 56"
  unfolding clamp_dt_eq fl64_1e9 fl64_005 by simp

subsection \<open>One iteration\<close>

lemma clamp_to_screen_fst:
  "fst (clamp_to_screen w h p) =
     (let x = (if fst p < 0 then 0 else fst p)
      in if x > real_of_int (w - 1) then real_of_int (w - 1) else x)"
  by (simp add: clamp_to_screen_def Let_def)

lemma clamp_to_screen_snd:
  "snd (clamp_to_screen w h p) =
     (let y = (if snd p < 0 then 0 else snd p)
      in if y > real_of_int (h - 1) then real_of_int (h - 1) else y)"
  by (simp add: clamp_to_screen_def Let_def)

lemma clamp_to_screen_inside:
  assumes "0 \<le> x" and "x \<le> real_of_int (w - 1)" and "0 \<le> y" and "y \<le> real_of_int (h - 1)"
  shows "clamp_to_screen w h (x, y) = (x, y)"
  using assms by (simp add: clamp_to_screen_def Let_def)

lemma advance_eq:
  "advance s dt (px, py)
     = (fl64 (px + fst (displacement s dt)), fl64 (py + snd (displacement s dt)))"
  by (simp add: advance_def Let_def)

lemma physicsLoop_step_enabled_pos:
  assumes "enabled s"
  shows "snd (snd (physicsLoop_step env (s, pos))) =
     clamp_to_screen (screenW env) (screenH env) (advance s (clamp_dt (elapsed env)) pos)"
  using assms by (simp add: physicsLoop_step_def Let_def)

lemma physicsLoop_step_enabled_out:
  assumes "enabled s"
  shows "fst (physicsLoop_step env (s, pos)) =
     SetCursorPos (lround (fst (snd (snd (physicsLoop_step env (s, pos))))))
                  (lround (snd (snd (snd (physicsLoop_step env (s, pos))))))
       # fst (click_edges s)"
  using assms by (simp add: physicsLoop_step_def Let_def)

lemma physicsLoop_step_enabled_state:
  assumes "enabled s"
  shows "fst (snd (physicsLoop_step env (s, pos))) = snd (click_edges s)"
  using assms by (simp add: physicsLoop_step_def Let_def)

lemma lround_506:
  assumes "1011 / 2 \<le> x" and "x < 1013 / 2"
  shows "lround x = 506"
proof -
  from assms have "\<lfloor>x + 1 / 2\<rfloor> = 506"
    by (simp add: floor_eq_iff)
  moreover from assms have "0 \<le> x"
    by simp
  ultimately show ?thesis by (simp add: lround_def)
qed

lemma lround_of_int: "lround (real_of_int n) = n"
proof (cases "0 \<le> n")
  case True
  have "\<lfloor>real_of_int n + 1 / 2\<rfloor> = n"
    by (simp add: floor_eq_iff)
  with True show ?thesis by (simp add: lround_def)
next
  case False
  have "\<lceil>real_of_int n - 1 / 2\<rceil> = n"
    by (simp add: ceiling_eq_iff)
  with False show ?thesis by (simp add: lround_def)
qed

lemma displacement_right_nominal:
  assumes "held_direction s = (1, 0)" and "\<not> shiftPressed s"
    and "dt = targetDt \<or> dt = 1 / 120"
  shows "displacement s dt = (12233387 / 2 ^ 21, 0)"
proof -
  have "move_step s dt = 12233387 / 2 ^ 21"
    using assms(3)
  proof
    assume "dt = targetDt"
    then show ?thesis using assms(2)
      by (simp only: move_step_targetDt if_False)
  next
    assume "dt = 1 / 120"
    then show ?thesis using assms(2)
      by (simp only: move_step_120 if_False)
  qed
  then show ?thesis
    using displacement_axis [OF assms(1), of dt] by simp
qed

lemma scenario_step:
  assumes "enabled s" and "held_direction s = (1, 0)" and "\<not> shiftPressed s"
    and "elapsed env = targetDt \<or> elapsed env = 1 / 120"
    and "507 \<le> screenW env" and "501 \<le> screenH env"
  shows "fst (physicsLoop_step env (s, (500, 500))) = SetCursorPos 506 500 # fst (click_edges s)"
proof -
  have dt: "clamp_dt (elapsed env) = elapsed env"
    using assms(4)
  proof
    assume "elapsed env = targetDt"
    then show ?thesis by (simp only: clamp_dt_targetDt)
  next
    assume "elapsed env = 1 / 120"
    then show ?thesis by (simp only: clamp_dt_120)
  qed
  have dis: "displacement s (elapsed env) = (12233387 / 2 ^ 21, 0)"
    using assms(2,3,4) by (rule displacement_right_nominal)
  have adv: "advance s (clamp_dt (elapsed env)) (500, 500) = (1060809387 / 2 ^ 21, 500)"
    unfolding dt advance_eq dis fst_conv snd_conv fl64_scenario
    using fl64_500 by simp
  have w: "1060809387 / 2 ^ 21 \<le> real_of_int (screenW env - 1)"
  proof -
    have "(1060809387 / 2 ^ 21 :: real) \<le> 506" by simp
    also have "\<dots> \<le> real_of_int (screenW env - 1)" using assms(5) by linarith
    finally show ?thesis .
  qed
  have h: "500 \<le> real_of_int (screenH env - 1)"
    using assms(6) by linarith
  have pos: "snd (snd (physicsLoop_step env (s, (500, 500)))) = (1060809387 / 2 ^ 21, 500)"
    unfolding physicsLoop_step_enabled_pos [OF assms(1)] adv
    using w h by (intro clamp_to_screen_inside) simp_all
  have "lround (1060809387 / 2 ^ 21) = 506"
    by (rule lround_506) simp_all
  moreover have "lround 500 = 500"
    using lround_of_int [of 500] by simp
  ultimately show ?thesis
    unfolding physicsLoop_step_enabled_out [OF assms(1)] pos by simp
qed

subsection \<open>Speed and displacement\<close>

lemma speed_eq: "MAX_SPEED_PIX_PER_S * speedMult s = (if shiftPressed s then 350 else 700)"
  by (simp add: MAX_SPEED_PIX_PER_S_def speedMult_def)

text \<open>
  C5, as the code has it. In an enabled iteration each coordinate of the position becomes
  the clamped binary64 sum of the old coordinate and the displacement. The displacement
  is, per component, the binary32 product of the normalised direction and the step, and
  the step is the binary32 product of the scalar speed and the interval narrowed to
  binary32; the scalar speed is 700 when the speed-modifier flag is false and exactly
  half of it, 350, when it is true. Each component differs from the exact product of the
  unit vector of the held direction, the scalar speed and the interval by at most the
  product of speed and interval divided by \<open>2 ^ 22\<close>; it is not equal to it in
  general. The interval is the elapsed time, replaced by the \<open>double\<close> nearest to
  1/120 when it is below the \<open>double\<close> nearest to 1e-9, and cut at the \<open>double\<close>
  nearest to 0.05. With only right held, no speed modifier, an elapsed time of 1/120 s
  (exactly, or its nearest \<open>double\<close>), the position (500,500) and a screen that
  contains the target, the iteration calls \<open>SetCursorPos\<close> with (506, 500).
\<close>

theorem C5_displacement:
  assumes "enabled s"
  shows "snd (snd (physicsLoop_step env (s, (px, py))))
           = clamp_to_screen (screenW env) (screenH env)
               (fl64 (px + fst (displacement s (clamp_dt (elapsed env)))),
                fl64 (py + snd (displacement s (clamp_dt (elapsed env)))))
       \<and> clamp_dt (elapsed env)
           = (if elapsed env < fl64 (1 / 10 ^ 9) then fl64 (1 / 120)
              else if fl64 (5 / 100) < elapsed env then fl64 (5 / 100)
              else elapsed env)
       \<and> displacement s (clamp_dt (elapsed env))
           = (fl32 (fst (normalize_direction (gather_direction s))
                * fl32 ((if shiftPressed s then 350 else 700) * fl32 (clamp_dt (elapsed env)))),
              fl32 (snd (normalize_direction (gather_direction s))
                * fl32 ((if shiftPressed s then 350 else 700) * fl32 (clamp_dt (elapsed env)))))
       \<and> \<bar>fst (displacement s (clamp_dt (elapsed env)))
            - fst (unit_vector (held_direction s))
                * ((if shiftPressed s then 350 else 700) * clamp_dt (elapsed env))\<bar>
           \<le> (if shiftPressed s then 350 else 700) * clamp_dt (elapsed env) / 2 ^ 22
       \<and> \<bar>snd (displacement s (clamp_dt (elapsed env)))
            - snd (unit_vector (held_direction s))
                * ((if shiftPressed s then 350 else 700) * clamp_dt (elapsed env))\<bar>
           \<le> (if shiftPressed s then 350 else 700) * clamp_dt (elapsed env) / 2 ^ 22
       \<and> (right_held s \<and> \<not> left_held s \<and> \<not> up_held s \<and> \<not> down_held s
            \<and> \<not> shiftPressed s \<and> (elapsed env = fl64 (1 / 120) \<or> elapsed env = 1 / 120)
            \<and> px = 500 \<and> py = 500 \<and> 507 \<le> screenW env \<and> 501 \<le> screenH env \<longrightarrow>
          fst (physicsLoop_step env (s, (px, py))) = SetCursorPos 506 500 # fst (click_edges s))"
proof -
  let ?dt = "clamp_dt (elapsed env)"
  have p: "snd (snd (physicsLoop_step env (s, (px, py))))
           = clamp_to_screen (screenW env) (screenH env)
               (fl64 (px + fst (displacement s ?dt)), fl64 (py + snd (displacement s ?dt)))"
    using assms by (simp add: physicsLoop_step_enabled_pos advance_eq)
  have c: "?dt = (if elapsed env < fl64 (1 / 10 ^ 9) then fl64 (1 / 120)
              else if fl64 (5 / 100) < elapsed env then fl64 (5 / 100)
              else elapsed env)"
    by (rule clamp_dt_eq)
  have d: "displacement s ?dt
           = (fl32 (fst (normalize_direction (gather_direction s))
                * fl32 ((if shiftPressed s then 350 else 700) * fl32 ?dt)),
              fl32 (snd (normalize_direction (gather_direction s))
                * fl32 ((if shiftPressed s then 350 else 700) * fl32 ?dt)))"
    by (simp only: displacement_def Let_def move_step_eq)
  have dt: "0 < ?dt" by (rule clamp_dt_pos)
  have bx: "\<bar>fst (displacement s ?dt)
            - fst (unit_vector (held_direction s)) * ((if shiftPressed s then 350 else 700) * ?dt)\<bar>
           \<le> (if shiftPressed s then 350 else 700) * ?dt / 2 ^ 22"
    using displacement_close(1) [OF dt, of s] unfolding speed_eq .
  have by': "\<bar>snd (displacement s ?dt)
            - snd (unit_vector (held_direction s)) * ((if shiftPressed s then 350 else 700) * ?dt)\<bar>
           \<le> (if shiftPressed s then 350 else 700) * ?dt / 2 ^ 22"
    using displacement_close(2) [OF dt, of s] unfolding speed_eq .
  have sc: "right_held s \<and> \<not> left_held s \<and> \<not> up_held s \<and> \<not> down_held s
            \<and> \<not> shiftPressed s \<and> (elapsed env = fl64 (1 / 120) \<or> elapsed env = 1 / 120)
            \<and> px = 500 \<and> py = 500 \<and> 507 \<le> screenW env \<and> 501 \<le> screenH env \<longrightarrow>
          fst (physicsLoop_step env (s, (px, py))) = SetCursorPos 506 500 # fst (click_edges s)"
  proof
    assume a: "right_held s \<and> \<not> left_held s \<and> \<not> up_held s \<and> \<not> down_held s
            \<and> \<not> shiftPressed s \<and> (elapsed env = fl64 (1 / 120) \<or> elapsed env = 1 / 120)
            \<and> px = 500 \<and> py = 500 \<and> 507 \<le> screenW env \<and> 501 \<le> screenH env"
    then have h: "held_direction s = (1, 0)"
      by (simp add: held_direction_def)
    from a have el: "elapsed env = targetDt \<or> elapsed env = 1 / 120"
      by (simp only: targetDt_120)
    from a have "px = 500" and "py = 500" by blast+
    then show "fst (physicsLoop_step env (s, (px, py))) = SetCursorPos 506 500 # fst (click_edges s)"
      using scenario_step [OF assms h _ el] a by blast
  qed
  from p c d bx by' sc show ?thesis by blast
qed

text \<open>
  Left held for one iteration of 45 ms from (500,500): the step is 16515073/2^19, a
  little above 31.5, and the iteration writes pixel 468.
\<close>

lemma held_right: "held_direction (initial_globals\<lparr>key_right := True, enabled := True\<rparr>) = (1, 0)"
  by (simp add: held_direction_def right_held_def left_held_def up_held_def down_held_def
      initial_globals_def)

lemma held_left: "held_direction (initial_globals\<lparr>key_left := True, enabled := True\<rparr>) = (- 1, 0)"
  by (simp add: held_direction_def right_held_def left_held_def up_held_def down_held_def
      initial_globals_def)

lemma left_45ms:
  "fst (physicsLoop_step
          \<lparr>elapsed = fl64 (45 / 1000), cursor_query = None, screenW = 1920, screenH = 1080\<rparr>
          (initial_globals\<lparr>key_left := True, enabled := True\<rparr>, (500, 500)))
     = [SetCursorPos 468 500]"
proof -
  let ?env = "\<lparr>elapsed = fl64 (45 / 1000), cursor_query = None, screenW = 1920, screenH = 1080\<rparr>"
  let ?l = "initial_globals\<lparr>key_left := True, enabled := True\<rparr>"
  have en: "enabled ?l" by simp
  have ns: "\<not> shiftPressed ?l" by (simp add: initial_globals_def)
  have dt: "clamp_dt (elapsed ?env) = 3242591731706757 / 2 ^ 56"
    unfolding select_convs fl64_045 by (rule clamp_dt_045)
  have mv: "move_step ?l (3242591731706757 / 2 ^ 56) = 16515073 / 2 ^ 19"
    unfolding move_step_eq fl32_045 using ns fl32_step_045 by (simp only: if_False)
  have dis: "displacement ?l (3242591731706757 / 2 ^ 56) = (- 1 * (16515073 / 2 ^ 19), 0)"
    using displacement_axis [OF held_left, of "3242591731706757 / 2 ^ 56"] mv by simp
  have adv: "advance ?l (clamp_dt (elapsed ?env)) (500, 500) = (245628927 / 2 ^ 19, 500)"
    unfolding dt advance_eq dis fst_conv snd_conv fl64_045_left
    using fl64_500 by simp
  have pos: "snd (snd (physicsLoop_step ?env (?l, (500, 500)))) = (245628927 / 2 ^ 19, 500)"
    unfolding physicsLoop_step_enabled_pos [OF en] adv
    by (intro clamp_to_screen_inside) simp_all
  have "\<lfloor>(245628927 / 2 ^ 19 :: real) + 1 / 2\<rfloor> = 468"
    by (simp add: floor_eq_iff)
  then have "lround (245628927 / 2 ^ 19) = 468"
    by (simp add: lround_def)
  moreover have "lround 500 = 500"
    using lround_of_int [of 500] by simp
  moreover have "fst (click_edges ?l) = []"
    by (simp add: click_edges_def initial_globals_def Let_def)
  ultimately show ?thesis
    unfolding physicsLoop_step_enabled_out [OF en] pos by simp
qed

text \<open>
  With right held at the nominal interval the displacement is 12233387/2^21, which is not
  the unit vector times 700 times the interval; and with left held for 45 ms from
  (500,500) the iteration writes pixel 468, where the exact product of direction, speed
  and interval would round to 469.
\<close>

theorem C5_step_not_exact:
  "fst (displacement (initial_globals\<lparr>key_right := True, enabled := True\<rparr>)
         (clamp_dt (fl64 (1 / 120)))) = 12233387 / 2 ^ 21
   \<and> fst (unit_vector (held_direction (initial_globals\<lparr>key_right := True, enabled := True\<rparr>)))
         * (700 * clamp_dt (fl64 (1 / 120))) = 700 * (4803839602528529 / 2 ^ 59)
   \<and> (12233387 / 2 ^ 21 :: real) \<noteq> 700 * (4803839602528529 / 2 ^ 59)
   \<and> fst (physicsLoop_step
          \<lparr>elapsed = fl64 (45 / 1000), cursor_query = None, screenW = 1920, screenH = 1080\<rparr>
          (initial_globals\<lparr>key_left := True, enabled := True\<rparr>, (500, 500)))
       = [SetCursorPos 468 500]
   \<and> lround (500 + (- 1) * (700 * clamp_dt (fl64 (45 / 1000)))) = 469"
proof -
  let ?r = "initial_globals\<lparr>key_right := True, enabled := True\<rparr>"
  have ns: "\<not> shiftPressed ?r" by (simp add: initial_globals_def)
  have dt: "clamp_dt (fl64 (1 / 120)) = 4803839602528529 / 2 ^ 59"
    unfolding targetDt_120 [symmetric] clamp_dt_targetDt by (rule targetDt_eq)
  have "displacement ?r targetDt = (12233387 / 2 ^ 21, 0)"
    using held_right ns by (rule displacement_right_nominal) simp
  then have a: "fst (displacement ?r (clamp_dt (fl64 (1 / 120)))) = 12233387 / 2 ^ 21"
    unfolding targetDt_120 [symmetric] clamp_dt_targetDt by simp
  have b: "fst (unit_vector (held_direction ?r)) * (700 * clamp_dt (fl64 (1 / 120)))
             = 700 * (4803839602528529 / 2 ^ 59)"
    unfolding held_right dt by (simp add: unit_vector_def euclid_def)
  have c: "(12233387 / 2 ^ 21 :: real) \<noteq> 700 * (4803839602528529 / 2 ^ 59)"
    by simp
  have dt45: "clamp_dt (fl64 (45 / 1000)) = 3242591731706757 / 2 ^ 56"
    unfolding fl64_045 by (rule clamp_dt_045)
  have "\<lfloor>(500::real) + (- 1) * (700 * (3242591731706757 / 2 ^ 56)) + 1 / 2\<rfloor> = 469"
    by (simp add: floor_eq_iff)
  then have e: "lround (500 + (- 1) * (700 * clamp_dt (fl64 (45 / 1000)))) = 469"
    unfolding dt45 by (simp add: lround_def)
  from a b c left_45ms e show ?thesis by blast
qed

lemma run_toggle_right:
  "run_events [key_press VK_CAPITAL, key_press VK_RIGHT] initial_globals
     = initial_globals\<lparr>key_right := True, enabled := True\<rparr>"
  by (simp add: LowLevelKeyboardProc_def key_press_def initial_globals_def isDown_def isUp_def
      store_edge_def wm_defs vk_defs)

text \<open>
  The scenario from the start: a disabled iteration takes the position (500,500) from
  the cursor, caps lock enables the controller, the right arrow is pressed, and the next
  iteration, at the nominal interval on a 1920 by 1080 screen, writes (506, 500) and
  nothing else.
\<close>

theorem C5_displacement_witness:
  "enabled (run_events [key_press VK_CAPITAL, key_press VK_RIGHT] initial_globals)
   \<and> snd (snd (physicsLoop_step
         \<lparr>elapsed = fl64 (1 / 120), cursor_query = Some (500, 500), screenW = 1920,
          screenH = 1080\<rparr>
         (initial_globals, (0, 0)))) = (500, 500)
   \<and> fst (physicsLoop_step
         \<lparr>elapsed = fl64 (1 / 120), cursor_query = Some (500, 500), screenW = 1920,
          screenH = 1080\<rparr>
         (run_events [key_press VK_CAPITAL, key_press VK_RIGHT] initial_globals, (500, 500)))
       = [SetCursorPos 506 500]"
proof -
  let ?env = "\<lparr>elapsed = fl64 (1 / 120), cursor_query = Some (500, 500), screenW = 1920,
               screenH = 1080\<rparr>"
  let ?s = "run_events [key_press VK_CAPITAL, key_press VK_RIGHT] initial_globals"
  have s: "?s = initial_globals\<lparr>key_right := True, enabled := True\<rparr>"
    by (rule run_toggle_right)
  have en: "enabled ?s"
    unfolding s by simp
  have held: "right_held ?s" "\<not> left_held ?s" "\<not> up_held ?s" "\<not> down_held ?s"
    "\<not> shiftPressed ?s"
    unfolding s
    by (simp_all add: right_held_def left_held_def up_held_def down_held_def initial_globals_def)
  have env: "elapsed ?env = fl64 (1 / 120) \<or> elapsed ?env = 1 / 120"
    "507 \<le> screenW ?env" "501 \<le> screenH ?env"
    by simp_all
  have sync: "snd (snd (physicsLoop_step ?env (initial_globals, (0, 0)))) = (500, 500)"
    by (simp add: physicsLoop_step_def initial_globals_def Let_def)
  have clicks: "fst (click_edges ?s) = []"
    unfolding s by (simp add: click_edges_def initial_globals_def Let_def)
  have "fst (physicsLoop_step ?env (?s, (500, 500))) = SetCursorPos 506 500 # fst (click_edges ?s)"
    using C5_displacement [OF en, of ?env 500 500] held env by blast
  with en sync clicks show ?thesis by simp
qed

subsection \<open>Clamping to the screen\<close>

text \<open>
  C6. On a screen of at least one pixel in each dimension, the position after an enabled
  iteration lies in \<open>[0, screenW - 1]\<close> by \<open>[0, screenH - 1]\<close>. Each coordinate is
  decided by its own target alone, the coordinate the addition of the displacement has
  produced: a target below zero gives exactly 0, a target above the last pixel gives
  exactly that last pixel, and a target in between is kept.
\<close>

theorem C6_clamped:
  assumes "enabled s" and "1 \<le> screenW env" and "1 \<le> screenH env"
  shows "0 \<le> fst (snd (snd (physicsLoop_step env (s, (px, py)))))
       \<and> fst (snd (snd (physicsLoop_step env (s, (px, py))))) \<le> real_of_int (screenW env - 1)
       \<and> 0 \<le> snd (snd (snd (physicsLoop_step env (s, (px, py)))))
       \<and> snd (snd (snd (physicsLoop_step env (s, (px, py))))) \<le> real_of_int (screenH env - 1)
       \<and> (fst (advance s (clamp_dt (elapsed env)) (px, py)) < 0 \<longrightarrow>
            fst (snd (snd (physicsLoop_step env (s, (px, py))))) = 0)
       \<and> (fst (advance s (clamp_dt (elapsed env)) (px, py)) > real_of_int (screenW env - 1) \<longrightarrow>
            fst (snd (snd (physicsLoop_step env (s, (px, py))))) = real_of_int (screenW env - 1))
       \<and> (0 \<le> fst (advance s (clamp_dt (elapsed env)) (px, py))
            \<and> fst (advance s (clamp_dt (elapsed env)) (px, py)) \<le> real_of_int (screenW env - 1) \<longrightarrow>
            fst (snd (snd (physicsLoop_step env (s, (px, py)))))
              = fst (advance s (clamp_dt (elapsed env)) (px, py)))
       \<and> (snd (advance s (clamp_dt (elapsed env)) (px, py)) < 0 \<longrightarrow>
            snd (snd (snd (physicsLoop_step env (s, (px, py))))) = 0)
       \<and> (snd (advance s (clamp_dt (elapsed env)) (px, py)) > real_of_int (screenH env - 1) \<longrightarrow>
            snd (snd (snd (physicsLoop_step env (s, (px, py))))) = real_of_int (screenH env - 1))
       \<and> (0 \<le> snd (advance s (clamp_dt (elapsed env)) (px, py))
            \<and> snd (advance s (clamp_dt (elapsed env)) (px, py)) \<le> real_of_int (screenH env - 1) \<longrightarrow>
            snd (snd (snd (physicsLoop_step env (s, (px, py)))))
              = snd (advance s (clamp_dt (elapsed env)) (px, py)))
       \<and> advance s (clamp_dt (elapsed env)) (px, py)
            = (fl64 (px + fst (displacement s (clamp_dt (elapsed env)))),
               fl64 (py + snd (displacement s (clamp_dt (elapsed env)))))"
proof -
  let ?t = "advance s (clamp_dt (elapsed env)) (px, py)"
  let ?c = "clamp_to_screen (screenW env) (screenH env) ?t"
  have pos: "snd (snd (physicsLoop_step env (s, (px, py)))) = ?c"
    using assms(1) by (rule physicsLoop_step_enabled_pos)
  have w: "0 \<le> real_of_int (screenW env - 1)" and h: "0 \<le> real_of_int (screenH env - 1)"
    using assms(2,3) by simp_all
  have x: "0 \<le> fst ?c \<and> fst ?c \<le> real_of_int (screenW env - 1)
         \<and> (fst ?t < 0 \<longrightarrow> fst ?c = 0)
         \<and> (fst ?t > real_of_int (screenW env - 1) \<longrightarrow> fst ?c = real_of_int (screenW env - 1))
         \<and> (0 \<le> fst ?t \<and> fst ?t \<le> real_of_int (screenW env - 1) \<longrightarrow> fst ?c = fst ?t)"
    unfolding clamp_to_screen_fst using w by (auto simp: Let_def)
  have y: "0 \<le> snd ?c \<and> snd ?c \<le> real_of_int (screenH env - 1)
         \<and> (snd ?t < 0 \<longrightarrow> snd ?c = 0)
         \<and> (snd ?t > real_of_int (screenH env - 1) \<longrightarrow> snd ?c = real_of_int (screenH env - 1))
         \<and> (0 \<le> snd ?t \<and> snd ?t \<le> real_of_int (screenH env - 1) \<longrightarrow> snd ?c = snd ?t)"
    unfolding clamp_to_screen_snd using h by (auto simp: Let_def)
  have a: "?t = (fl64 (px + fst (displacement s (clamp_dt (elapsed env)))),
                 fl64 (py + snd (displacement s (clamp_dt (elapsed env)))))"
    by (rule advance_eq)
  show ?thesis unfolding pos using x y a by blast
qed

lemma fl64_right_edge: "fl64 (1917 + 12233387 / 2 ^ 21) = 4032473771 / 2 ^ 21"
  unfolding fl64_def
  by (subst round_to_evalI [where e = 10 and n = 8456710433800192])
     (simp_all add: pow2_def rne_def)

lemma fl64_left_edge: "fl64 (2 + - 1 * (12233387 / 2 ^ 21)) = - (8039083 / 2 ^ 21)"
  unfolding fl64_def
  by (subst round_to_evalI [where e = 1 and n = 8631899643707392])
     (simp_all add: pow2_def rne_def)

text \<open>
  On a 1920 by 1080 screen at the nominal interval: moving right from x = 1917 stops at
  1919, moving left from x = 2 stops at 0.
\<close>

theorem C6_clamped_witness:
  "enabled (initial_globals\<lparr>key_right := True, enabled := True\<rparr>)
   \<and> enabled (initial_globals\<lparr>key_left := True, enabled := True\<rparr>)
   \<and> (1::int) \<le> 1920 \<and> (1::int) \<le> 1080
   \<and> snd (snd (physicsLoop_step
         \<lparr>elapsed = fl64 (1 / 120), cursor_query = None, screenW = 1920, screenH = 1080\<rparr>
         (initial_globals\<lparr>key_right := True, enabled := True\<rparr>, (1917, 500))))
       = (1919, 500)
   \<and> snd (snd (physicsLoop_step
         \<lparr>elapsed = fl64 (1 / 120), cursor_query = None, screenW = 1920, screenH = 1080\<rparr>
         (initial_globals\<lparr>key_left := True, enabled := True\<rparr>, (2, 500))))
       = (0, 500)"
proof -
  let ?env = "\<lparr>elapsed = fl64 (1 / 120), cursor_query = None, screenW = 1920, screenH = 1080\<rparr>"
  let ?r = "initial_globals\<lparr>key_right := True, enabled := True\<rparr>"
  let ?l = "initial_globals\<lparr>key_left := True, enabled := True\<rparr>"
  have en: "enabled ?r" "enabled ?l"
    by simp_all
  have ns: "\<not> shiftPressed ?r" "\<not> shiftPressed ?l"
    by (simp_all add: initial_globals_def)
  have scr: "1 \<le> screenW ?env" "1 \<le> screenH ?env"
    by simp_all
  have dt: "clamp_dt (elapsed ?env) = targetDt"
    unfolding select_convs targetDt_120 [symmetric] by (rule clamp_dt_targetDt)
  have dr: "displacement ?r targetDt = (12233387 / 2 ^ 21, 0)"
    using held_right ns(1) by (rule displacement_right_nominal) simp
  have "move_step ?l targetDt = 12233387 / 2 ^ 21"
    using ns(2) by (simp only: move_step_targetDt if_False)
  then have dl: "displacement ?l targetDt = (- 1 * (12233387 / 2 ^ 21), 0)"
    using displacement_axis [OF held_left, of targetDt] by simp
  have ar: "advance ?r (clamp_dt (elapsed ?env)) (1917, 500) = (4032473771 / 2 ^ 21, 500)"
    unfolding dt advance_eq dr fst_conv snd_conv fl64_right_edge using fl64_500 by simp
  have al: "advance ?l (clamp_dt (elapsed ?env)) (2, 500) = (- (8039083 / 2 ^ 21), 500)"
    unfolding dt advance_eq dl fst_conv snd_conv fl64_left_edge using fl64_500 by simp
  note r = C6_clamped [OF en(1) scr, of 1917 500, unfolded ar]
  note l = C6_clamped [OF en(2) scr, of 2 500, unfolded al]
  have "fst (snd (snd (physicsLoop_step ?env (?r, (1917, 500))))) = 1919"
    "snd (snd (snd (physicsLoop_step ?env (?r, (1917, 500))))) = 500"
    using r by simp_all
  moreover have "fst (snd (snd (physicsLoop_step ?env (?l, (2, 500))))) = 0"
    "snd (snd (snd (physicsLoop_step ?env (?l, (2, 500))))) = 500"
    using l by simp_all
  ultimately show ?thesis
    using en by (simp add: prod_eq_iff)
qed

subsection \<open>Direction, unit length and the length of the displacement\<close>

lemma displacement_scaled:
  "displacement s dt =
     (fst (held_direction s)
        * (if fst (held_direction s) \<noteq> 0 \<and> snd (held_direction s) \<noteq> 0
           then fl32 (11863283 / 2 ^ 24 * move_step s dt) else move_step s dt),
      snd (held_direction s)
        * (if fst (held_direction s) \<noteq> 0 \<and> snd (held_direction s) \<noteq> 0
           then fl32 (11863283 / 2 ^ 24 * move_step s dt) else move_step s dt))"
proof (cases s rule: held_direction_cases)
  case zero
  then show ?thesis by (simp add: displacement_zero)
next
  case (axis x y)
  then show ?thesis using displacement_axis [OF axis, of dt] by auto
next
  case (diag x y)
  then show ?thesis using displacement_diag [OF diag, of dt] by auto
qed

lemma diag_square_sum:
  fixes x y :: real
  assumes "x = 1 \<or> x = - 1" and "y = 1 \<or> y = - 1"
  shows "(x * (11863283 / 2 ^ 24))\<^sup>2 + (y * (11863283 / 2 ^ 24))\<^sup>2
           = 2 * (11863283 / 2 ^ 24)\<^sup>2"
  using assms by (auto simp: power_mult_distrib)

lemma diag_square_sum_bounds:
  shows "1 - 1 / 2 ^ 24 \<le> 2 * (11863283 / 2 ^ 24 :: real)\<^sup>2"
    and "2 * (11863283 / 2 ^ 24 :: real)\<^sup>2 < 1"
  by (simp_all add: power2_eq_square)

text \<open>
  C4, as the code has it. The direction gathered from the movement flags is the sum of
  (0,-1) for up, (0,+1) for down, (-1,0) for left and (+1,0) for right. Opposing flags
  cancel exactly: with up and down both held the vertical component and the vertical
  displacement are zero, likewise for left and right, and when every held direction is
  held together with its opposite the direction and the displacement are the zero vector.
  With one axis left the normalised direction is that unit axis vector, of length exactly
  one, and the displacement has exactly the length of the step, the binary32 product of
  the scalar speed (700, or 350 with the speed modifier held) and the interval narrowed
  to binary32. With two orthogonal directions both components of the normalised direction
  have the magnitude 11863283/2^24, the binary32 quotient of 1 and \<open>hypot\<close>, with the
  signs of the gathered direction; the sum of their squares is below one, by less than
  \<open>1 / 2 ^ 24\<close>. Whenever a direction is left, the length of the displacement differs
  from the product of scalar speed and interval by at most that product divided by
  \<open>2 ^ 22\<close>. The interval is the elapsed time, replaced by the \<open>double\<close> nearest to
  1/120 when it is below the \<open>double\<close> nearest to 1e-9, and cut at the \<open>double\<close>
  nearest to 0.05.
\<close>

theorem C4_direction:
  "gather_direction s =
     ((if right_held s then 1 else 0) - (if left_held s then 1 else 0),
      (if down_held s then 1 else 0) - (if up_held s then 1 else 0))
   \<and> (up_held s \<and> down_held s \<longrightarrow>
        snd (gather_direction s) = 0 \<and> snd (displacement s (clamp_dt el)) = 0)
   \<and> (left_held s \<and> right_held s \<longrightarrow>
        fst (gather_direction s) = 0 \<and> fst (displacement s (clamp_dt el)) = 0)
   \<and> (up_held s = down_held s \<and> left_held s = right_held s \<longrightarrow>
        gather_direction s = (0, 0) \<and> displacement s (clamp_dt el) = (0, 0))
   \<and> normalize_direction (gather_direction s)
        = (if fst (gather_direction s) \<noteq> 0 \<and> snd (gather_direction s) \<noteq> 0
           then (fst (gather_direction s) * (11863283 / 2 ^ 24),
                 snd (gather_direction s) * (11863283 / 2 ^ 24))
           else gather_direction s)
   \<and> (gather_direction s \<noteq> (0, 0)
        \<and> (fst (gather_direction s) = 0 \<or> snd (gather_direction s) = 0) \<longrightarrow>
        (fst (normalize_direction (gather_direction s)))\<^sup>2
          + (snd (normalize_direction (gather_direction s)))\<^sup>2 = 1
      \<and> euclid (displacement s (clamp_dt el))
          = fl32 ((if shiftPressed s then 350 else 700) * fl32 (clamp_dt el)))
   \<and> (fst (gather_direction s) \<noteq> 0 \<and> snd (gather_direction s) \<noteq> 0 \<longrightarrow>
        (fst (normalize_direction (gather_direction s)))\<^sup>2
          + (snd (normalize_direction (gather_direction s)))\<^sup>2 = 2 * (11863283 / 2 ^ 24)\<^sup>2
      \<and> (fst (normalize_direction (gather_direction s)))\<^sup>2
          + (snd (normalize_direction (gather_direction s)))\<^sup>2 < 1
      \<and> 1 - 1 / 2 ^ 24 \<le> (fst (normalize_direction (gather_direction s)))\<^sup>2
          + (snd (normalize_direction (gather_direction s)))\<^sup>2)
   \<and> (gather_direction s \<noteq> (0, 0) \<longrightarrow>
        \<bar>euclid (displacement s (clamp_dt el))
            - (if shiftPressed s then 350 else 700) * clamp_dt el\<bar>
          \<le> (if shiftPressed s then 350 else 700) * clamp_dt el / 2 ^ 22)
   \<and> clamp_dt el
        = (if el < fl64 (1 / 10 ^ 9) then fl64 (1 / 120)
           else if fl64 (5 / 100) < el then fl64 (5 / 100)
           else el)"
proof -
  let ?dt = "clamp_dt el"
  let ?g = "gather_direction s"
  let ?n = "normalize_direction ?g"
  have dt: "0 < ?dt" by (rule clamp_dt_pos)
  have g: "?g = held_direction s" by (rule gather_direction_eq)
  have a: "?g = ((if right_held s then 1 else 0) - (if left_held s then 1 else 0),
                 (if down_held s then 1 else 0) - (if up_held s then 1 else 0))"
    unfolding g by (simp add: held_direction_def)
  have v: "up_held s \<and> down_held s \<longrightarrow> snd ?g = 0 \<and> snd (displacement s ?dt) = 0"
  proof
    assume "up_held s \<and> down_held s"
    then have "snd (held_direction s) = 0" by (simp add: held_direction_def)
    then show "snd ?g = 0 \<and> snd (displacement s ?dt) = 0"
      unfolding g by (simp add: displacement_scaled [of s ?dt])
  qed
  have h: "left_held s \<and> right_held s \<longrightarrow> fst ?g = 0 \<and> fst (displacement s ?dt) = 0"
  proof
    assume "left_held s \<and> right_held s"
    then have "fst (held_direction s) = 0" by (simp add: held_direction_def)
    then show "fst ?g = 0 \<and> fst (displacement s ?dt) = 0"
      unfolding g by (simp add: displacement_scaled [of s ?dt])
  qed
  have z: "up_held s = down_held s \<and> left_held s = right_held s \<longrightarrow>
             ?g = (0, 0) \<and> displacement s ?dt = (0, 0)"
  proof
    assume "up_held s = down_held s \<and> left_held s = right_held s"
    then have "held_direction s = (0, 0)" by (simp add: held_direction_def)
    then show "?g = (0, 0) \<and> displacement s ?dt = (0, 0)"
      unfolding g by (simp add: displacement_zero)
  qed
  have n: "?n = (if fst ?g \<noteq> 0 \<and> snd ?g \<noteq> 0
                 then (fst ?g * (11863283 / 2 ^ 24), snd ?g * (11863283 / 2 ^ 24)) else ?g)"
    unfolding g by (rule normalize_held_direction)
  have ax: "?g \<noteq> (0, 0) \<and> (fst ?g = 0 \<or> snd ?g = 0) \<longrightarrow>
        (fst ?n)\<^sup>2 + (snd ?n)\<^sup>2 = 1
      \<and> euclid (displacement s ?dt) = fl32 ((if shiftPressed s then 350 else 700) * fl32 ?dt)"
  proof
    assume c: "?g \<noteq> (0, 0) \<and> (fst ?g = 0 \<or> snd ?g = 0)"
    show "(fst ?n)\<^sup>2 + (snd ?n)\<^sup>2 = 1
      \<and> euclid (displacement s ?dt) = fl32 ((if shiftPressed s then 350 else 700) * fl32 ?dt)"
    proof (cases s rule: held_direction_cases)
      case zero
      with c g show ?thesis by simp
    next
      case (axis x y)
      have m: "0 \<le> move_step s ?dt" using move_step_pos [OF dt, of s] by simp
      have "(fst ?n)\<^sup>2 + (snd ?n)\<^sup>2 = 1"
        unfolding g axis(1) normalize_direction_axis [OF axis(2)] using axis(2) by auto
      moreover have "euclid (displacement s ?dt) = move_step s ?dt"
        unfolding displacement_axis [OF axis] using euclid_axis [OF axis(2)] m
        by (simp add: euclid_scale)
      ultimately show ?thesis by (simp only: move_step_eq)
    next
      case (diag x y)
      with c g show ?thesis by auto
    qed
  qed
  have dg: "fst ?g \<noteq> 0 \<and> snd ?g \<noteq> 0 \<longrightarrow>
        (fst ?n)\<^sup>2 + (snd ?n)\<^sup>2 = 2 * (11863283 / 2 ^ 24)\<^sup>2
      \<and> (fst ?n)\<^sup>2 + (snd ?n)\<^sup>2 < 1
      \<and> 1 - 1 / 2 ^ 24 \<le> (fst ?n)\<^sup>2 + (snd ?n)\<^sup>2"
  proof
    assume c: "fst ?g \<noteq> 0 \<and> snd ?g \<noteq> 0"
    show "(fst ?n)\<^sup>2 + (snd ?n)\<^sup>2 = 2 * (11863283 / 2 ^ 24)\<^sup>2
      \<and> (fst ?n)\<^sup>2 + (snd ?n)\<^sup>2 < 1
      \<and> 1 - 1 / 2 ^ 24 \<le> (fst ?n)\<^sup>2 + (snd ?n)\<^sup>2"
    proof (cases s rule: held_direction_cases)
      case zero
      with c g show ?thesis by simp
    next
      case (axis x y)
      with c g show ?thesis by auto
    next
      case (diag x y)
      have e: "(fst ?n)\<^sup>2 + (snd ?n)\<^sup>2 = 2 * (11863283 / 2 ^ 24)\<^sup>2"
        unfolding g diag(1) normalize_direction_diag [OF diag(2,3)] fst_conv snd_conv
        using diag(2,3) by (rule diag_square_sum)
      show ?thesis
        unfolding e using diag_square_sum_bounds by blast
    qed
  qed
  have m: "?g \<noteq> (0, 0) \<longrightarrow>
        \<bar>euclid (displacement s ?dt) - (if shiftPressed s then 350 else 700) * ?dt\<bar>
          \<le> (if shiftPressed s then 350 else 700) * ?dt / 2 ^ 22"
    unfolding g using displacement_length_close [OF _ dt, of s] unfolding speed_eq by blast
  have c: "?dt = (if el < fl64 (1 / 10 ^ 9) then fl64 (1 / 120)
           else if fl64 (5 / 100) < el then fl64 (5 / 100) else el)"
    by (rule clamp_dt_eq)
  from a v h z n ax dg m c show ?thesis by blast
qed

text \<open>The states of the examples that follow.\<close>

lemma held_up_right:
  "held_direction (initial_globals\<lparr>key_up := True, key_l := True\<rparr>) = (1, - 1)"
  by (simp add: held_direction_def right_held_def left_held_def up_held_def down_held_def
      initial_globals_def)

lemma held_right_plain: "held_direction (initial_globals\<lparr>key_right := True\<rparr>) = (1, 0)"
  by (simp add: held_direction_def right_held_def left_held_def up_held_def down_held_def
      initial_globals_def)

lemma held_right_shift:
  "held_direction (initial_globals\<lparr>key_right := True, shiftPressed := True\<rparr>) = (1, 0)"
  by (simp add: held_direction_def right_held_def left_held_def up_held_def down_held_def
      initial_globals_def)

lemma clamp_dt_nominal_value: "clamp_dt (fl64 (1 / 120)) = 4803839602528529 / 2 ^ 59"
  unfolding targetDt_120 [symmetric] clamp_dt_targetDt by (rule targetDt_eq)

lemma euclid_right:
  assumes "0 \<le> c"
  shows "euclid (1 * c, 0 * c) = c"
  using assms by (simp add: euclid_def)

text \<open>
  Up with right: the normalised direction is (q, -q) with q = 11863283/2^24, and the sum
  of the squares is not one. Right alone at the nominal interval: the displacement has
  length 12233387/2^21, which is not 700 times the interval; with the speed modifier held
  it has length 12233387/2^22, half of it.
\<close>

theorem C4_not_unit_length:
  "normalize_direction (gather_direction (initial_globals\<lparr>key_up := True, key_l := True\<rparr>))
     = (11863283 / 2 ^ 24, - (11863283 / 2 ^ 24))
   \<and> (fst (normalize_direction
              (gather_direction (initial_globals\<lparr>key_up := True, key_l := True\<rparr>))))\<^sup>2
      + (snd (normalize_direction
              (gather_direction (initial_globals\<lparr>key_up := True, key_l := True\<rparr>))))\<^sup>2
      \<noteq> 1
   \<and> euclid (displacement (initial_globals\<lparr>key_right := True\<rparr>) (clamp_dt (fl64 (1 / 120))))
      = 12233387 / 2 ^ 21
   \<and> euclid (displacement (initial_globals\<lparr>key_right := True\<rparr>) (clamp_dt (fl64 (1 / 120))))
      \<noteq> MAX_SPEED_PIX_PER_S * clamp_dt (fl64 (1 / 120))
   \<and> euclid (displacement (initial_globals\<lparr>key_right := True, shiftPressed := True\<rparr>)
               (clamp_dt (fl64 (1 / 120))))
      = 12233387 / 2 ^ 22
   \<and> euclid (displacement (initial_globals\<lparr>key_right := True, shiftPressed := True\<rparr>)
               (clamp_dt (fl64 (1 / 120))))
      \<noteq> MAX_SPEED_PIX_PER_S * clamp_dt (fl64 (1 / 120))"
proof -
  let ?d = "initial_globals\<lparr>key_up := True, key_l := True\<rparr>"
  let ?r = "initial_globals\<lparr>key_right := True\<rparr>"
  let ?rs = "initial_globals\<lparr>key_right := True, shiftPressed := True\<rparr>"
  have n: "normalize_direction (gather_direction ?d) = (11863283 / 2 ^ 24, - (11863283 / 2 ^ 24))"
    unfolding gather_direction_eq held_up_right
    using normalize_direction_diag [of 1 "- 1"] by simp
  have sq: "(fst (normalize_direction (gather_direction ?d)))\<^sup>2
              + (snd (normalize_direction (gather_direction ?d)))\<^sup>2 \<noteq> 1"
    unfolding n by (simp add: power2_eq_square)
  have dt: "clamp_dt (fl64 (1 / 120)) = targetDt"
    unfolding targetDt_120 [symmetric] by (rule clamp_dt_targetDt)
  have mr: "move_step ?r targetDt = 12233387 / 2 ^ 21"
    unfolding move_step_targetDt by (simp add: initial_globals_def)
  have ms: "move_step ?rs targetDt = 12233387 / 2 ^ 22"
    unfolding move_step_targetDt by simp
  have er: "euclid (displacement ?r (clamp_dt (fl64 (1 / 120)))) = 12233387 / 2 ^ 21"
    unfolding dt displacement_axis [OF held_right_plain, of targetDt, simplified] mr
    using euclid_right [of "12233387 / 2 ^ 21"] by simp
  have es: "euclid (displacement ?rs (clamp_dt (fl64 (1 / 120)))) = 12233387 / 2 ^ 22"
    unfolding dt displacement_axis [OF held_right_shift, of targetDt, simplified] ms
    using euclid_right [of "12233387 / 2 ^ 22"] by simp
  have k: "MAX_SPEED_PIX_PER_S * clamp_dt (fl64 (1 / 120)) = 700 * (4803839602528529 / 2 ^ 59)"
    unfolding clamp_dt_nominal_value by (simp add: MAX_SPEED_PIX_PER_S_def)
  have nr: "euclid (displacement ?r (clamp_dt (fl64 (1 / 120))))
              \<noteq> MAX_SPEED_PIX_PER_S * clamp_dt (fl64 (1 / 120))"
    unfolding er k by simp
  have nrs: "euclid (displacement ?rs (clamp_dt (fl64 (1 / 120))))
              \<noteq> MAX_SPEED_PIX_PER_S * clamp_dt (fl64 (1 / 120))"
    unfolding es k by simp
  from n sq er nr es nrs show ?thesis by blast
qed


text \<open>
  Up (arrow key) with right (the L key) gives the diagonal (1,-1), the normalised
  direction (q, -q) and a displacement whose length is within one part in \<open>2 ^ 22\<close> of
  700 times the nominal interval; left (arrow key) with right (the L key) gives no
  displacement.
\<close>

theorem C4_direction_witness:
  "gather_direction (initial_globals\<lparr>key_up := True, key_l := True\<rparr>) = (1, - 1)
   \<and> normalize_direction (gather_direction (initial_globals\<lparr>key_up := True, key_l := True\<rparr>))
       = (11863283 / 2 ^ 24, - (11863283 / 2 ^ 24))
   \<and> \<bar>euclid (displacement (initial_globals\<lparr>key_up := True, key_l := True\<rparr>)
                 (clamp_dt (fl64 (1 / 120))))
        - 700 * (4803839602528529 / 2 ^ 59)\<bar>
       \<le> 700 * (4803839602528529 / 2 ^ 59) / 2 ^ 22
   \<and> left_held (initial_globals\<lparr>key_left := True, key_l := True\<rparr>)
   \<and> right_held (initial_globals\<lparr>key_left := True, key_l := True\<rparr>)
   \<and> up_held (initial_globals\<lparr>key_left := True, key_l := True\<rparr>)
       = down_held (initial_globals\<lparr>key_left := True, key_l := True\<rparr>)
   \<and> displacement (initial_globals\<lparr>key_left := True, key_l := True\<rparr>)
        (clamp_dt (fl64 (1 / 120))) = (0, 0)"
proof -
  let ?diag = "initial_globals\<lparr>key_up := True, key_l := True\<rparr>"
  let ?opp = "initial_globals\<lparr>key_left := True, key_l := True\<rparr>"
  let ?el = "fl64 (1 / 120)"
  have hd: "up_held ?diag" "right_held ?diag" "\<not> down_held ?diag" "\<not> left_held ?diag"
    "\<not> shiftPressed ?diag"
    by (simp_all add: up_held_def right_held_def down_held_def left_held_def initial_globals_def)
  have ho: "left_held ?opp" "right_held ?opp" "\<not> up_held ?opp" "\<not> down_held ?opp"
    by (simp_all add: up_held_def right_held_def down_held_def left_held_def initial_globals_def)
  note t = C4_direction [of ?diag ?el]
  note t1 = t [THEN conjunct1]
  note t5 = t [THEN conjunct2, THEN conjunct2, THEN conjunct2, THEN conjunct2, THEN conjunct1]
  note t8 = t [THEN conjunct2, THEN conjunct2, THEN conjunct2, THEN conjunct2, THEN conjunct2,
               THEN conjunct2, THEN conjunct2, THEN conjunct1]
  note o4 = C4_direction [of ?opp ?el, THEN conjunct2, THEN conjunct2, THEN conjunct2,
                          THEN conjunct1]
  have g: "gather_direction ?diag = (1, - 1)"
    unfolding t1 using hd by simp
  have n: "normalize_direction (gather_direction ?diag)
             = (11863283 / 2 ^ 24, - (11863283 / 2 ^ 24))"
    unfolding t5 unfolding g by simp
  have nz: "gather_direction ?diag \<noteq> (0, 0)"
    unfolding g by simp
  have "\<bar>euclid (displacement ?diag (clamp_dt ?el))
            - (if shiftPressed ?diag then 350 else 700) * clamp_dt ?el\<bar>
          \<le> (if shiftPressed ?diag then 350 else 700) * clamp_dt ?el / 2 ^ 22"
    using t8 nz by (rule mp)
  then have mag: "\<bar>euclid (displacement ?diag (clamp_dt ?el))
            - 700 * (4803839602528529 / 2 ^ 59)\<bar>
          \<le> 700 * (4803839602528529 / 2 ^ 59) / 2 ^ 22"
    unfolding clamp_dt_nominal_value using hd(5) by (simp only: if_False)
  have eq: "up_held ?opp = down_held ?opp \<and> left_held ?opp = right_held ?opp"
    using ho by simp
  have zero: "displacement ?opp (clamp_dt ?el) = (0, 0)"
    using o4 eq by blast
  from g n mag zero eq ho(1,2) show ?thesis
    by (intro conjI) blast+
qed

subsection \<open>Three nominal iterations\<close>

text \<open>
  Left held for three iterations at the nominal interval from (500,500): the positions
  are 494.16666650772095, 488.3333330154419 and 482.49999952316284, and the third
  iteration writes pixel 482.
\<close>

lemma fl64_tick1: "fl64 (500 + - 1 * (12233387 / 2 ^ 21)) = 1036342613 / 2 ^ 21"
  unfolding fl64_def
  by (subst round_to_evalI [where e = 8 and n = 8693471934152704])
     (simp_all add: pow2_def rne_def)

lemma fl64_tick2: "fl64 (1036342613 / 2 ^ 21 + - 1 * (12233387 / 2 ^ 21)) = 512054613 / 2 ^ 20"
  unfolding fl64_def
  by (subst round_to_evalI [where e = 8 and n = 8590850846097408])
     (simp_all add: pow2_def rne_def)

lemma fl64_tick3: "fl64 (512054613 / 2 ^ 20 + - 1 * (12233387 / 2 ^ 21)) = 1011875839 / 2 ^ 21"
  unfolding fl64_def
  by (subst round_to_evalI [where e = 8 and n = 8488229758042112])
     (simp_all add: pow2_def rne_def)

lemma left_nominal_step:
  assumes "fl64 (x + - 1 * (12233387 / 2 ^ 21)) = x'" and "0 \<le> x'" and "x' \<le> 1919"
  shows "snd (snd (physicsLoop_step
            \<lparr>elapsed = fl64 (1 / 120), cursor_query = None, screenW = 1920, screenH = 1080\<rparr>
            (initial_globals\<lparr>key_left := True, enabled := True\<rparr>, (x, 500))))
         = (x', 500)"
proof -
  let ?env = "\<lparr>elapsed = fl64 (1 / 120), cursor_query = None, screenW = 1920, screenH = 1080\<rparr>"
  let ?l = "initial_globals\<lparr>key_left := True, enabled := True\<rparr>"
  have en: "enabled ?l" by simp
  have ns: "\<not> shiftPressed ?l" by (simp add: initial_globals_def)
  have dt: "clamp_dt (elapsed ?env) = targetDt"
    unfolding select_convs targetDt_120 [symmetric] by (rule clamp_dt_targetDt)
  have "move_step ?l targetDt = 12233387 / 2 ^ 21"
    using ns by (simp only: move_step_targetDt if_False)
  then have dl: "displacement ?l targetDt = (- 1 * (12233387 / 2 ^ 21), 0)"
    using displacement_axis [OF held_left, of targetDt] by simp
  have adv: "advance ?l (clamp_dt (elapsed ?env)) (x, 500) = (x', 500)"
    unfolding dt advance_eq dl fst_conv snd_conv assms(1) using fl64_500 by simp
  show ?thesis
    unfolding physicsLoop_step_enabled_pos [OF en] adv
    using assms(2,3) by (intro clamp_to_screen_inside) simp_all
qed

lemma left_three_nominal_ticks:
  "fst (physicsLoop_step
          \<lparr>elapsed = fl64 (1 / 120), cursor_query = None, screenW = 1920, screenH = 1080\<rparr>
          (initial_globals\<lparr>key_left := True, enabled := True\<rparr>,
           snd (snd (physicsLoop_step
             \<lparr>elapsed = fl64 (1 / 120), cursor_query = None, screenW = 1920, screenH = 1080\<rparr>
             (initial_globals\<lparr>key_left := True, enabled := True\<rparr>,
              snd (snd (physicsLoop_step
                \<lparr>elapsed = fl64 (1 / 120), cursor_query = None, screenW = 1920,
                 screenH = 1080\<rparr>
                (initial_globals\<lparr>key_left := True, enabled := True\<rparr>, (500, 500)))))))))
     = [SetCursorPos 482 500]"
proof -
  let ?env = "\<lparr>elapsed = fl64 (1 / 120), cursor_query = None, screenW = 1920, screenH = 1080\<rparr>"
  let ?l = "initial_globals\<lparr>key_left := True, enabled := True\<rparr>"
  have en: "enabled ?l" by simp
  have p1: "snd (snd (physicsLoop_step ?env (?l, (500, 500)))) = (1036342613 / 2 ^ 21, 500)"
    using fl64_tick1 by (rule left_nominal_step) simp_all
  have p2: "snd (snd (physicsLoop_step ?env (?l, (1036342613 / 2 ^ 21, 500))))
              = (512054613 / 2 ^ 20, 500)"
    using fl64_tick2 by (rule left_nominal_step) simp_all
  have p3: "snd (snd (physicsLoop_step ?env (?l, (512054613 / 2 ^ 20, 500))))
              = (1011875839 / 2 ^ 21, 500)"
    using fl64_tick3 by (rule left_nominal_step) simp_all
  have "\<lfloor>(1011875839 / 2 ^ 21 :: real) + 1 / 2\<rfloor> = 482"
    by (simp add: floor_eq_iff)
  then have "lround (1011875839 / 2 ^ 21) = 482"
    by (simp add: lround_def)
  moreover have "lround 500 = 500"
    using lround_of_int [of 500] by simp
  moreover have "fst (click_edges ?l) = []"
    by (simp add: click_edges_def initial_globals_def Let_def)
  ultimately show ?thesis
    unfolding p1 p2 unfolding physicsLoop_step_enabled_out [OF en] p3 by simp
qed

subsection \<open>Further values of the rounding\<close>

text \<open>
  The binary32 values of 1/3 and 1/10, two halfway cases (the first goes down to the even
  significand, the second up) and an integer that needs 25 bits.
\<close>

lemma fl32_examples:
  shows "fl32 (1 / 3) = 11184811 / 2 ^ 25"
    and "fl32 (1 / 10) = 13421773 / 2 ^ 27"
    and "fl32 (1 + 1 / 2 ^ 24) = 1"
    and "fl32 (1 + 3 / 2 ^ 24) = 1 + 1 / 2 ^ 22"
    and "fl32 (16777217) = 16777216"
proof -
  show "fl32 (1 / 3) = 11184811 / 2 ^ 25"
    unfolding fl32_def
    by (subst round_to_evalI [where e = "- 2" and n = 11184811]) (simp_all add: pow2_def rne_def)
  show "fl32 (1 / 10) = 13421773 / 2 ^ 27"
    unfolding fl32_def
    by (subst round_to_evalI [where e = "- 4" and n = 13421773]) (simp_all add: pow2_def rne_def)
  show "fl32 (1 + 1 / 2 ^ 24) = 1"
    unfolding fl32_def
    by (subst round_to_evalI [where e = 0 and n = 8388608]) (simp_all add: pow2_def rne_def)
  show "fl32 (1 + 3 / 2 ^ 24) = 1 + 1 / 2 ^ 22"
    unfolding fl32_def
    by (subst round_to_evalI [where e = 0 and n = 8388610]) (simp_all add: pow2_def rne_def)
  show "fl32 (16777217) = 16777216"
    unfolding fl32_def
    by (subst round_to_evalI [where e = 24 and n = 8388608]) (simp_all add: pow2_def rne_def)
qed

end
